theory Spec2Isabelle
  imports Main "HOL-Library.Char_ord" "HOL-Library.List_Lexorder"
begin

section \<open>Python values used by daily\_market\_price.py\<close>

text \<open>
  A Python \<open>dict\<close> keeps its keys in insertion order and holds every key once. It is
  modelled as an association list; that the keys are distinct is stated where a theorem
  needs it. Strings are compared as Python compares \<open>str\<close>: lexicographically, character
  by character.
\<close>

type_synonym ('k, 'v) dict = "('k \<times> 'v) list"

definition keys :: "('k, 'v) dict \<Rightarrow> 'k list" where
  "keys d = map fst d"

text \<open>\<open>d[k] = v\<close>: an existing key keeps its position, a new key goes to the end.\<close>

primrec setitem :: "'k \<Rightarrow> 'v \<Rightarrow> ('k, 'v) dict \<Rightarrow> ('k, 'v) dict" where
  "setitem k v [] = [(k, v)]"
| "setitem k v (p # ps) = (if fst p = k then (k, v) # ps else p # setitem k v ps)"

text \<open>\<open>d.update(other)\<close>: the items of \<open>other\<close> are stored one by one, in their order.\<close>

primrec update :: "('k, 'v) dict \<Rightarrow> ('k, 'v) dict \<Rightarrow> ('k, 'v) dict" where
  "update d [] = d"
| "update d (p # ps) = update (setitem (fst p) (snd p) d) ps"

text \<open>
  \<open>dict(sorted(d.items()))\<close>: the items are (key, value) tuples; the keys of a dict differ
  pairwise, so the comparison of two items is decided by their keys.
\<close>

definition sorted_items :: "('k::linorder, 'v) dict \<Rightarrow> ('k, 'v) dict" where
  "sorted_items d = sort_key fst d"

section \<open>The time series of one instrument\<close>

text \<open>
  A time series maps a date string to one observation. The observations are floats that
  the program only stores and copies, so their type is left open.
\<close>

type_synonym 'v series = "(string, 'v) dict"

text \<open>
  \<open>merge_data\<close> (lines 290 to 305): an empty \<open>existing_data\<close> returns \<open>new_data\<close> as it
  is; otherwise a copy of \<open>existing_data\<close> is updated with \<open>new_data\<close> and sorted.
\<close>

definition merge_data :: "'v series \<Rightarrow> 'v series \<Rightarrow> string \<Rightarrow> 'v series" where
  "merge_data existing_data new_data ticker =
     (if existing_data = [] then new_data
      else sorted_items (update existing_data new_data))"

section \<open>Errors\<close>

text \<open>
  The exceptions that can be raised inside \<open>process_market\<close>: \<open>ValueError\<close> by
  \<open>strptime\<close> and by \<open>max\<close> of an empty sequence, \<open>OverflowError\<close> by date arithmetic
  that leaves the range of \<open>datetime\<close>, \<open>KeyError\<close> by \<open>self.market_data[market]\<close>, and
  \<open>RequestException\<close> for a failed call of one of the external services. Reading and
  writing the local files is taken to succeed.
\<close>

datatype error = ValueError | OverflowError | KeyError | RequestException

section \<open>Dates\<close>

text \<open>
  A \<open>datetime\<close> that comes from \<open>strptime(_, '%Y-%m-%d')\<close> is a calendar day at midnight,
  and \<open>strftime('%Y-%m-%d')\<close> prints the calendar day only, so the time of day is left out.
\<close>

record datetime =
  year :: int
  month :: int
  day :: int

definition is_leap :: "int \<Rightarrow> bool" where
  "is_leap y = (y mod 4 = 0 \<and> (y mod 100 \<noteq> 0 \<or> y mod 400 = 0))"

definition days_in_month :: "int \<Rightarrow> int \<Rightarrow> int" where
  "days_in_month y m =
     (if m = 2 then (if is_leap y then 29 else 28)
      else if m = 4 \<or> m = 6 \<or> m = 9 \<or> m = 11 then 30
      else 31)"

text \<open>Comparison of two datetimes (\<open>item_latest_date > latest_date\<close> is \<open>datetime_less\<close>
  with the arguments swapped).\<close>

definition datetime_less :: "datetime \<Rightarrow> datetime \<Rightarrow> bool" where
  "datetime_less a b =
     (year a < year b \<or>
      (year a = year b \<and> (month a < month b \<or> (month a = month b \<and> day a < day b))))"

definition is_digit :: "char \<Rightarrow> bool" where
  "is_digit c = (CHR ''0'' \<le> c \<and> c \<le> CHR ''9'')"

definition digit_val :: "char \<Rightarrow> int" where
  "digit_val c = int (of_char c) - 48"

definition int_of_digits :: "string \<Rightarrow> int" where
  "int_of_digits t = foldl (\<lambda>n c. 10 * n + digit_val c) 0 t"

text \<open>
  \<open>strptime\<close> turns the format \<open>%Y-%m-%d\<close> into a regular expression: \<open>%Y\<close> is four
  digits, \<open>%m\<close> is \<open>1[0-2]|0[1-9]|[1-9]\<close> and \<open>%d\<close> is
  \<open>3[0-1]|[1-2]\d|0[1-9]|[1-9]| [1-9]\<close>; the whole string has to be consumed.
\<close>

definition month_token :: "string \<Rightarrow> bool" where
  "month_token t =
     (case t of
        [a] \<Rightarrow> CHR ''1'' \<le> a \<and> a \<le> CHR ''9''
      | [a, b] \<Rightarrow> (a = CHR ''1'' \<and> CHR ''0'' \<le> b \<and> b \<le> CHR ''2'') \<or>
                  (a = CHR ''0'' \<and> CHR ''1'' \<le> b \<and> b \<le> CHR ''9'')
      | _ \<Rightarrow> False)"

definition day_token :: "string \<Rightarrow> bool" where
  "day_token t =
     (case t of
        [a] \<Rightarrow> CHR ''1'' \<le> a \<and> a \<le> CHR ''9''
      | [a, b] \<Rightarrow> (a = CHR ''3'' \<and> CHR ''0'' \<le> b \<and> b \<le> CHR ''1'') \<or>
                  (CHR ''1'' \<le> a \<and> a \<le> CHR ''2'' \<and> is_digit b) \<or>
                  (a = CHR ''0'' \<and> CHR ''1'' \<le> b \<and> b \<le> CHR ''9'') \<or>
                  (a = CHR '' '' \<and> CHR ''1'' \<le> b \<and> b \<le> CHR ''9'')
      | _ \<Rightarrow> False)"

text \<open>
  The fields are converted with \<open>int\<close>, which skips the blank of a day written
  \<open>' 5'\<close>. The date is then built by \<open>datetime(year, month, day)\<close>, which raises
  \<open>ValueError\<close> for the year 0 and for a day the month does not have.
\<close>

definition strptime :: "string \<Rightarrow> error + datetime" where
  "strptime s =
     (let y_tok = take 4 s;
          m_tok = takeWhile (\<lambda>c. c \<noteq> CHR ''-'') (drop 5 s);
          rest = dropWhile (\<lambda>c. c \<noteq> CHR ''-'') (drop 5 s);
          d_tok = drop 1 rest
      in if length y_tok = 4 \<and> list_all is_digit y_tok \<and> take 1 (drop 4 s) = ''-'' \<and>
            month_token m_tok \<and> rest \<noteq> [] \<and> day_token d_tok
         then
           (let y = int_of_digits y_tok;
                m = int_of_digits m_tok;
                d = int_of_digits (dropWhile (\<lambda>c. c = CHR '' '') d_tok)
            in if 1 \<le> y \<and> d \<le> days_in_month y m
               then Inr \<lparr>year = y, month = m, day = d\<rparr>
               else Inl ValueError)
         else Inl ValueError)"

definition digit_char :: "int \<Rightarrow> char" where
  "digit_char n = ''0123456789'' ! nat n"

definition pad2 :: "int \<Rightarrow> string" where
  "pad2 n = [digit_char (n div 10), digit_char (n mod 10)]"

definition pad4 :: "int \<Rightarrow> string" where
  "pad4 n = pad2 (n div 100) @ pad2 (n mod 100)"

text \<open>
  \<open>strftime('%Y-%m-%d')\<close>: the year on four digits, month and day on two, each padded
  with zeros.
\<close>

definition strftime :: "datetime \<Rightarrow> string" where
  "strftime t = pad4 (year t) @ ''-'' @ pad2 (month t) @ ''-'' @ pad2 (day t)"

text \<open>
  \<open>t + timedelta(days=-1)\<close>: the day before \<open>t\<close>. The earliest datetime is 0001-01-01;
  the day before it raises \<open>OverflowError\<close>.
\<close>

definition prev_day :: "datetime \<Rightarrow> error + datetime" where
  "prev_day t =
     (if 1 < day t then Inr (t\<lparr>day := day t - 1\<rparr>)
      else if 1 < month t
        then Inr (t\<lparr>month := month t - 1, day := days_in_month (year t) (month t - 1)\<rparr>)
      else if 1 < year t then Inr \<lparr>year = year t - 1, month = 12, day = 31\<rparr>
      else Inl OverflowError)"

text \<open>\<open>t - timedelta(days=n)\<close> for \<open>n \<ge> 0\<close>: \<open>n\<close> days back, one day at a time.\<close>

fun minus_days :: "datetime \<Rightarrow> nat \<Rightarrow> error + datetime" where
  "minus_days t 0 = Inr t"
| "minus_days t (Suc n) =
     (case prev_day t of Inl e \<Rightarrow> Inl e | Inr t' \<Rightarrow> minus_days t' n)"

text \<open>\<open>max(seq)\<close>: \<open>ValueError\<close> on an empty sequence, else the first greatest element.\<close>

fun max_from :: "'a::linorder \<Rightarrow> 'a list \<Rightarrow> 'a" where
  "max_from m [] = m"
| "max_from m (x # xs) = max_from (if m < x then x else m) xs"

definition py_max :: "'a::linorder list \<Rightarrow> error + 'a" where
  "py_max xs = (case xs of [] \<Rightarrow> Inl ValueError | x # rest \<Rightarrow> Inr (max_from x rest))"

section \<open>The configuration of MarketDataManager\<close>

definition ticker_to_ric :: "(string, string) dict" where
  "ticker_to_ric =
   [(''^GSPC'', ''.SPX''), (''^IXIC'', ''.IXIC''), (''^SOX'', ''.SOX''), (''^DJI'', ''.DJI''),
    (''^TWII'', ''.TWII''), (''000001.SS'', ''.SSEC''), (''000300.SS'', ''.CSI300''),
    (''^HSI'', ''.HSI''), (''^KS11'', ''.KS11''), (''^GDAXI'', ''.GDAXI''),
    (''^N225'', ''.N225''), (''^FCHI'', ''.FCHI''),
    (''MSFT'', ''MSFT.O''), (''GOOGL'', ''GOOGL.O''), (''AMZN'', ''AMZN.O''),
    (''AAPL'', ''AAPL.O''), (''NVDA'', ''NVDA.O''), (''META'', ''META.O''),
    (''TSLA'', ''TSLA.O''), (''AVGO'', ''AVGO.O''), (''AMD'', ''AMD.O''),
    (''QCOM'', ''QCOM.O''), (''INTC'', ''INTC.O''), (''MU'', ''MU.O''), (''ASML'', ''ASML.O''),
    (''NFLX'', ''NFLX.O''), (''MRVL'', ''MRVL.O''), (''TSM'', ''TSM.N''),
    (''2330.TW'', ''2330.TW''), (''2317.TW'', ''2317.TW''), (''2454.TW'', ''2454.TW''),
    (''2308.TW'', ''2308.TW''), (''5347.TWO'', ''5347.TWO''), (''3443.TW'', ''3443.TW''),
    (''3374.TWO'', ''3374.TWO''), (''6789.TW'', ''6789.TW''),
    (''DGS3MO'', ''US3MT=RR''), (''DGS2'', ''US2YT=RR''), (''DGS5'', ''US5YT=RR''),
    (''DGS10'', ''US10YT=RR''), (''DGS30'', ''US30YT=RR''),
    (''DX-Y.NYB'', ''.DXY''), (''EURUSD=X'', ''EUR=''), (''JPY=X'', ''JPY=''),
    (''TWD=X'', ''TWD=''), (''KRW=X'', ''KRW=''), (''CNY=X'', ''CNY=''),
    (''CL=F'', ''CLc1''), (''GC=F'', ''GCc1'')]"

definition market_data :: "(string, (string, string) dict) dict" where
  "market_data =
   [(''Equity_Index'',
     [(''^GSPC'', ''S&P 500''), (''^IXIC'', ''Nasdaq''), (''^SOX'', ''SOX''),
      (''^DJI'', ''Dow Jones''), (''^TWII'', ''TWSE''), (''000001.SS'', ''SSE''),
      (''000300.SS'', ''CSI300''), (''^HSI'', ''HSI''), (''^KS11'', ''KOSPI''),
      (''^GDAXI'', ''DAX''), (''^N225'', ''Nikkei''), (''^FCHI'', ''CAC40'')]),
    (''US_Stocks'',
     [(''MSFT'', ''Microsoft''), (''GOOGL'', ''Google''), (''AMZN'', ''Amazon''),
      (''AAPL'', ''Apple''), (''NVDA'', ''NVIDIA''), (''META'', ''Meta''), (''TSLA'', ''Tesla''),
      (''AVGO'', ''Broadcom''), (''AMD'', ''AMD''), (''QCOM'', ''Qualcomm''),
      (''INTC'', ''Intel''), (''MU'', ''Micron''), (''ASML'', ''ASML''), (''NFLX'', ''Netflix''),
      (''MRVL'', ''Marvell''), (''TSM'', ''TSMC ADR'')]),
    (''TW_Stocks'',
     [(''2330.TW'', ''TSMC''), (''2317.TW'', ''Hon Hai''), (''2454.TW'', ''MediaTek''),
      (''2308.TW'', ''Delta''), (''5347.TWO'', ''Vanguard''), (''3443.TW'', ''Unichip''),
      (''3374.TWO'', ''Xintec''), (''6789.TW'', ''VisEra'')]),
    (''US_Rates'',
     [(''DGS3MO'', ''UST 3M''), (''DGS2'', ''UST 2Y''), (''DGS5'', ''UST 5Y''),
      (''DGS10'', ''UST 10Y''), (''DGS30'', ''UST 30Y'')]),
    (''FX'',
     [(''DX-Y.NYB'', ''DXY''), (''EURUSD=X'', ''EUR=''), (''JPY=X'', ''JPY=''),
      (''TWD=X'', ''TWD=''), (''KRW=X'', ''KRW=''), (''CNY=X'', ''CNY='')]),
    (''Commodity'',
     [(''CL=F'', ''WTI Oil''), (''GC=F'', ''Gold'')])]"

text \<open>\<open>self.ticker_to_ric.get(ticker, ticker)\<close>\<close>

definition ric_of :: "string \<Rightarrow> string" where
  "ric_of ticker = (case map_of ticker_to_ric ticker of Some ric \<Rightarrow> ric | None \<Rightarrow> ticker)"

section \<open>Documents, collaborators and state\<close>

text \<open>
  One instrument of a persisted document, as \<open>json.load\<close> returns it: its name and,
  when the key \<open>'data'\<close> is there, its time series.
\<close>

record 'v item =
  name :: string
  data :: "'v series option"

type_synonym 'v document = "(string, 'v item) dict"

text \<open>
  The manager's two credentials and the behaviour of what lies outside the program during
  one run. \<open>yf_download ticker start_date\<close> and \<open>fred_download series_id start_date\<close> stand
  for the body of the \<open>try\<close> block of the two download loops up to the dictionary built
  from the response: \<open>Inl\<close> when an exception is raised there, else that dictionary (it
  may be empty). \<open>github_get market\<close> is the remote read of \<open>load_existing_data\<close>: an
  exception, a status other than 200 (\<open>None\<close>), or the decoded document. \<open>github_put\<close> is
  the exchange of \<open>upload_to_github\<close>: an exception, or whether the status is 200 or 201.
\<close>

record 'v env =
  github_token :: "string option"
  github_repo :: "string option"
  now :: datetime
  yf_download :: "string \<Rightarrow> string \<Rightarrow> error + 'v series"
  fred_download :: "string \<Rightarrow> string \<Rightarrow> error + 'v series"
  github_get :: "string \<Rightarrow> error + 'v document option"
  github_put :: "string \<Rightarrow> error + bool"

text \<open>
  The status lines of \<open>load_existing_data\<close>, \<open>save_to_json\<close>, \<open>upload_to_github\<close>,
  \<open>process_market\<close> and \<open>run\<close>, without their wording. The lines that the two download
  loops print for each instrument are left out.
\<close>

datatype event =
    Banner
  | Processing string
  | ExistingCount nat
  | StartFrom string
  | RemoteLoadFailed string error
  | Saved string
  | UploadSkipped
  | Uploaded string
  | UploadRejected string
  | UploadError string
  | Stats string nat nat
  | NoData string
  | Failed string error
  | Finished

text \<open>
  The state that a run changes: the files \<open>market_data/<market>.json\<close> (by market,
  each holding the document that \<open>json.load\<close> reads from it), the documents handed to
  the remote store with success, and the console.
\<close>

record 'v state =
  local_files :: "string \<rightharpoonup> 'v document"
  published :: "(string \<times> 'v document) list"
  console :: "event list"

definition print :: "event \<Rightarrow> 'v state \<Rightarrow> 'v state" where
  "print e s = s\<lparr>console := console s @ [e]\<rparr>"

text \<open>Truth value of a credential: \<open>None\<close> and the empty string are false.\<close>

definition truthy :: "string option \<Rightarrow> bool" where
  "truthy x = (case x of None \<Rightarrow> False | Some t \<Rightarrow> t \<noteq> [])"

section \<open>The methods of MarketDataManager\<close>

text \<open>\<open>load_existing_data\<close> (lines 160 to 189).\<close>

definition load_existing_data :: "'v env \<Rightarrow> string \<Rightarrow> 'v state \<Rightarrow> 'v document \<times> 'v state" where
  "load_existing_data env market s =
     (case local_files s market of
        Some doc \<Rightarrow> (doc, s)
      | None \<Rightarrow>
          if truthy (github_repo env) \<and> truthy (github_token env) then
            (case github_get env market of
               Inr (Some doc) \<Rightarrow> (doc, s\<lparr>local_files := (local_files s)(market \<mapsto> doc)\<rparr>)
             | Inr None \<Rightarrow> ([], s)
             | Inl e \<Rightarrow> ([], print (RemoteLoadFailed market e) s))
          else ([], s))"

text \<open>
  The loop of \<open>download_fred_rates\<close> (lines 196 to 231) and of \<open>download_yfinance_data\<close>
  (lines 240 to 286): an instrument whose request raises is skipped, as is one whose
  dictionary is empty; the others are stored under their provider symbol.
\<close>

fun download_loop ::
  "(string \<Rightarrow> error + 'v series) \<Rightarrow> (string, string) dict \<Rightarrow> (string, 'v series) dict \<Rightarrow>
   (string, 'v series) dict" where
  "download_loop fetch [] acc = acc"
| "download_loop fetch (p # ps) acc =
     (case fetch (fst p) of
        Inl e \<Rightarrow> download_loop fetch ps acc
      | Inr data_dict \<Rightarrow>
          if data_dict \<noteq> [] then download_loop fetch ps (setitem (fst p) data_dict acc)
          else download_loop fetch ps acc)"

definition download_fred_rates :: "'v env \<Rightarrow> string \<Rightarrow> error + (string, 'v series) dict" where
  "download_fred_rates env start_date =
     (case map_of market_data ''US_Rates'' of
        None \<Rightarrow> Inl KeyError
      | Some rates \<Rightarrow> Inr (download_loop (\<lambda>series_id. fred_download env series_id start_date) rates []))"

definition download_yfinance_data ::
  "'v env \<Rightarrow> string \<Rightarrow> (string, string) dict \<Rightarrow> string \<Rightarrow> (string, 'v series) dict" where
  "download_yfinance_data env market tickers_dict start_date =
     download_loop (\<lambda>ticker. yf_download env ticker start_date) tickers_dict []"

text \<open>\<open>convert_to_ric_format\<close> (lines 307 to 339).\<close>

fun find_name :: "(string, (string, string) dict) dict \<Rightarrow> string \<Rightarrow> string option" where
  "find_name [] ticker = None"
| "find_name (m # ms) ticker =
     (case map_of (snd m) ticker of Some n \<Rightarrow> Some n | None \<Rightarrow> find_name ms ticker)"

definition name_or :: "string option \<Rightarrow> string \<Rightarrow> string" where
  "name_or n ticker = (case n of None \<Rightarrow> ticker | Some t \<Rightarrow> if t = [] then ticker else t)"

fun convert_loop :: "(string, 'v series) dict \<Rightarrow> 'v document \<Rightarrow> 'v document" where
  "convert_loop [] ric_data = ric_data"
| "convert_loop (p # ps) ric_data =
     convert_loop ps
       (setitem (ric_of (fst p))
          \<lparr>name = name_or (find_name market_data (fst p)) (fst p), data = Some (snd p)\<rparr>
          ric_data)"

definition convert_to_ric_format :: "(string, 'v series) dict \<Rightarrow> 'v document" where
  "convert_to_ric_format md = convert_loop md []"

text \<open>\<open>save_to_json\<close> (lines 341 to 352); the file path is given by the market.\<close>

definition save_to_json :: "string \<Rightarrow> (string, 'v series) dict \<Rightarrow> 'v state \<Rightarrow> 'v state" where
  "save_to_json market d s =
     print (Saved market)
       (s\<lparr>local_files := (local_files s)(market \<mapsto> convert_to_ric_format d)\<rparr>)"

text \<open>\<open>upload_to_github\<close> (lines 354 to 393).\<close>

definition upload_to_github :: "'v env \<Rightarrow> string \<Rightarrow> 'v state \<Rightarrow> 'v state" where
  "upload_to_github env market s =
     (if \<not> truthy (github_repo env) \<or> \<not> truthy (github_token env) then print UploadSkipped s
      else
        (case local_files s market of
           None \<Rightarrow> print (UploadError market) s
         | Some content \<Rightarrow>
             (case github_put env market of
                Inl e \<Rightarrow> print (UploadError market) s
              | Inr ok \<Rightarrow>
                  if ok then print (Uploaded market)
                               (s\<lparr>published := published s @ [(market, content)]\<rparr>)
                  else print (UploadRejected market) s)))"

text \<open>
  The parts of \<open>process_market\<close> (lines 395 to 462). First the start date of the download
  (lines 412 to 432).
\<close>

fun latest_date_loop :: "'v item list \<Rightarrow> datetime option \<Rightarrow> error + datetime option" where
  "latest_date_loop [] latest_date = Inr latest_date"
| "latest_date_loop (item_data # rest) latest_date =
     (case data item_data of
        None \<Rightarrow> latest_date_loop rest latest_date
      | Some d \<Rightarrow>
          if d = [] then latest_date_loop rest latest_date
          else
            (case py_max (keys d) of
               Inl e \<Rightarrow> Inl e
             | Inr item_latest_date_str \<Rightarrow>
                 (case strptime item_latest_date_str of
                    Inl e \<Rightarrow> Inl e
                  | Inr item_latest_date \<Rightarrow>
                      (case latest_date of
                         None \<Rightarrow> latest_date_loop rest (Some item_latest_date)
                       | Some l \<Rightarrow>
                           if datetime_less l item_latest_date
                           then latest_date_loop rest (Some item_latest_date)
                           else latest_date_loop rest latest_date))))"

definition start_date_of :: "bool \<Rightarrow> 'v document \<Rightarrow> datetime \<Rightarrow> error + string" where
  "start_date_of is_first_run existing_data today =
     (if is_first_run \<or> existing_data = [] then Inr ''2020-01-01''
      else
        (case latest_date_loop (map snd existing_data) None of
           Inl e \<Rightarrow> Inl e
         | Inr (Some latest_date) \<Rightarrow>
             (case minus_days latest_date 1 of
                Inl e \<Rightarrow> Inl e
              | Inr t \<Rightarrow> Inr (strftime t))
         | Inr None \<Rightarrow>
             (case minus_days today (365 * 5) of
                Inl e \<Rightarrow> Inl e
              | Inr t \<Rightarrow> Inr (strftime t))))"

text \<open>The download of the new data (lines 435 to 439).\<close>

definition download_new_data :: "'v env \<Rightarrow> string \<Rightarrow> string \<Rightarrow> error + (string, 'v series) dict" where
  "download_new_data env market start_date =
     (if market = ''US_Rates'' then download_fred_rates env start_date
      else
        (case map_of market_data market of
           None \<Rightarrow> Inl KeyError
         | Some tickers_dict \<Rightarrow> Inr (download_yfinance_data env market tickers_dict start_date)))"

text \<open>The merge of the new data with the existing document (lines 442 to 448).\<close>

definition old_prices_of :: "'v document \<Rightarrow> string \<Rightarrow> 'v series" where
  "old_prices_of existing_data ric =
     (case map_of existing_data ric of
        None \<Rightarrow> []
      | Some item_data \<Rightarrow> (case data item_data of None \<Rightarrow> [] | Some d \<Rightarrow> d))"

fun merge_loop ::
  "'v document \<Rightarrow> (string, 'v series) dict \<Rightarrow> (string, 'v series) dict \<Rightarrow>
   (string, 'v series) dict" where
  "merge_loop existing_data [] merged_data = merged_data"
| "merge_loop existing_data (p # ps) merged_data =
     merge_loop existing_data ps
       (setitem (fst p)
          (merge_data (old_prices_of existing_data (ric_of (fst p))) (snd p) (fst p))
          merged_data)"

definition total_records :: "(string, 'v series) dict \<Rightarrow> nat" where
  "total_records merged_data = sum_list (map (\<lambda>p. length (snd p)) merged_data)"

text \<open>
  \<open>process_market\<close>: the result is the exception that leaves the method, if any, and the
  state at that moment.
\<close>

definition process_market ::
  "'v env \<Rightarrow> string \<Rightarrow> bool \<Rightarrow> 'v state \<Rightarrow> error option \<times> 'v state" where
  "process_market env market is_first_run s0 =
     (let (existing_data, s1) = load_existing_data env market (print (Processing market) s0);
          s2 = print (ExistingCount (length existing_data)) s1
      in case start_date_of is_first_run existing_data (now env) of
           Inl e \<Rightarrow> (Some e, s2)
         | Inr start_date \<Rightarrow>
             (let s3 = print (StartFrom start_date) s2
              in case download_new_data env market start_date of
                   Inl e \<Rightarrow> (Some e, s3)
                 | Inr new_data \<Rightarrow>
                     (let merged_data = merge_loop existing_data new_data []
                      in if merged_data \<noteq> [] then
                           (let s4 = save_to_json market merged_data s3;
                                s5 = upload_to_github env market s4
                            in (None, print (Stats market (length merged_data)
                                               (total_records merged_data)) s5))
                         else (None, print (NoData market) s3))))"

text \<open>\<open>run\<close> (lines 464 to 488): every market in turn, inside \<open>try\<close> ... \<open>except Exception\<close>.\<close>

definition run_market :: "'v env \<Rightarrow> bool \<Rightarrow> 'v state \<Rightarrow> string \<Rightarrow> 'v state" where
  "run_market env is_first_run s market =
     (case process_market env market is_first_run s of
        (None, s') \<Rightarrow> s'
      | (Some e, s') \<Rightarrow> print (Failed market e) s')"

definition run :: "'v env \<Rightarrow> bool \<Rightarrow> 'v state \<Rightarrow> 'v state" where
  "run env is_first_run s =
     print Finished (foldl (run_market env is_first_run) (print Banner s) (keys market_data))"

section \<open>Notions used to state the properties\<close>

text \<open>A calendar day that \<open>datetime\<close> can hold.\<close>

definition valid_date :: "datetime \<Rightarrow> bool" where
  "valid_date t =
     (1 \<le> year t \<and> year t \<le> 9999 \<and> 1 \<le> month t \<and> month t \<le> 12 \<and>
      1 \<le> day t \<and> day t \<le> days_in_month (year t) (month t))"

text \<open>
  A date string in the ISO form \<open>YYYY-MM-DD\<close>: \<open>strptime\<close> reads it, and \<open>strftime\<close>
  prints it back unchanged (so year, month and day are padded with zeros).
\<close>

definition iso_date :: "string \<Rightarrow> bool" where
  "iso_date s = (case strptime s of Inl e \<Rightarrow> False | Inr t \<Rightarrow> strftime t = s)"

text \<open>The dates of all time series of a list of instruments, and of a document.\<close>

definition item_dates :: "'v item list \<Rightarrow> string list" where
  "item_dates items =
     concat (map (\<lambda>i. case data i of None \<Rightarrow> [] | Some d \<Rightarrow> keys d) items)"

definition observed_dates :: "'v document \<Rightarrow> string list" where
  "observed_dates doc = item_dates (map snd doc)"

text \<open>
  \<open>is_latest r acc ds\<close>: \<open>r\<close> is the latest of the datetime \<open>acc\<close> (if any) and the
  datetimes read from the strings \<open>ds\<close>; \<open>None\<close> when there is none at all.
\<close>

definition is_latest :: "datetime option \<Rightarrow> datetime option \<Rightarrow> string list \<Rightarrow> bool" where
  "is_latest r acc ds =
     (case r of
        None \<Rightarrow> acc = None \<and> ds = []
      | Some t \<Rightarrow>
          (acc = Some t \<or> (\<exists>s \<in> set ds. strptime s = Inr t)) \<and>
          (\<forall>l. acc = Some l \<longrightarrow> \<not> datetime_less t l) \<and>
          (\<forall>s \<in> set ds. \<forall>t'. strptime s = Inr t' \<longrightarrow> \<not> datetime_less t t'))"

text \<open>A count that every step to the previous day lowers, by 1 to 4.\<close>

definition day_rank :: "datetime \<Rightarrow> int" where
  "day_rank t = 372 * (year t - 1) + 31 * (month t - 1) + day t"

text \<open>The new data that a run of \<open>process_market\<close> downloads, from the state it starts in.\<close>

definition new_data_of ::
  "'v env \<Rightarrow> string \<Rightarrow> bool \<Rightarrow> 'v state \<Rightarrow> error + (string, 'v series) dict" where
  "new_data_of env market is_first_run s =
     (case start_date_of is_first_run (fst (load_existing_data env market s)) (now env) of
        Inl e \<Rightarrow> Inl e
      | Inr start_date \<Rightarrow> download_new_data env market start_date)"

text \<open>
  The entry that \<open>process_market\<close> persists for a downloaded instrument: under its RIC,
  with its display name, the existing series of that RIC merged with the new one.
\<close>

definition persisted_entry :: "'v document \<Rightarrow> string \<times> 'v series \<Rightarrow> string \<times> 'v item" where
  "persisted_entry existing_data p =
     (ric_of (fst p),
      \<lparr>name = name_or (find_name market_data (fst p)) (fst p),
       data = Some (merge_data (old_prices_of existing_data (ric_of (fst p))) (snd p) (fst p))\<rparr>)"

text \<open>Every time series of the new data is a dictionary.\<close>

definition wf_new_data :: "(string, 'v series) dict \<Rightarrow> bool" where
  "wf_new_data new_data = list_all (\<lambda>p. distinct (keys (snd p))) new_data"

text \<open>Every time series of a document is a dictionary.\<close>

definition wf_document :: "'v document \<Rightarrow> bool" where
  "wf_document doc =
     list_all (\<lambda>p. case data (snd p) of None \<Rightarrow> True | Some d \<Rightarrow> distinct (keys d)) doc"

text \<open>The status line that opens the processing of a market.\<close>

definition is_processing :: "event \<Rightarrow> bool" where
  "is_processing e = (case e of Processing m \<Rightarrow> True | _ \<Rightarrow> False)"

text \<open>
  A manager configured as in the script's main block (a repository, an empty token) on
  2026-11-04, with every external request failing; and a state with no file.
\<close>

definition offline_env :: "int env" where
  "offline_env =
     \<lparr>github_token = Some [],
      github_repo = Some ''andychu221/yhfinance-fred-data'',
      now = \<lparr>year = 2026, month = 11, day = 4\<rparr>,
      yf_download = (\<lambda>ticker start_date. Inl RequestException),
      fred_download = (\<lambda>series_id start_date. Inl RequestException),
      github_get = (\<lambda>market. Inl RequestException),
      github_put = (\<lambda>market. Inl RequestException)\<rparr>"

definition empty_state :: "int state" where
  "empty_state = \<lparr>local_files = Map.empty, published = [], console = []\<rparr>"

section \<open>Facts about dictionaries\<close>

lemma map_of_setitem: "map_of (setitem k v d) = (map_of d)(k \<mapsto> v)"
  by (induction d) auto

lemma keys_setitem:
  "set (keys (setitem k v d)) = insert k (set (keys d))"
  by (induction d) (auto simp: keys_def)

lemma distinct_setitem:
  "distinct (keys d) \<Longrightarrow> distinct (keys (setitem k v d))"
proof (induction d)
  case Nil
  then show ?case by (simp add: keys_def)
next
  case (Cons p ps)
  have "set (keys (setitem k v ps)) = insert k (set (keys ps))"
    by (rule keys_setitem)
  with Cons show ?case by (auto simp: keys_def)
qed

lemma setitem_not_empty: "setitem k v d \<noteq> []"
  by (cases d) auto

lemma map_of_update:
  "distinct (keys new) \<Longrightarrow> map_of (update d new) = map_of d ++ map_of new"
proof (induction new arbitrary: d)
  case Nil
  then show ?case by simp
next
  case (Cons p ps)
  from Cons.prems have fresh: "fst p \<notin> fst ` set ps" and dist: "distinct (keys ps)"
    by (auto simp: keys_def)
  have "map_of (update d (p # ps)) = map_of (setitem (fst p) (snd p) d) ++ map_of ps"
    by (simp only: update.simps Cons.IH [OF dist])
  also have "\<dots> = (map_of d)(fst p \<mapsto> snd p) ++ map_of ps"
    by (simp only: map_of_setitem)
  also have "\<dots> = map_of d ++ map_of (p # ps)"
  proof (rule ext)
    fix x
    show "((map_of d)(fst p \<mapsto> snd p) ++ map_of ps) x = (map_of d ++ map_of (p # ps)) x"
    proof (cases "x = fst p")
      case True
      from fresh have "map_of ps (fst p) = None"
        by (simp add: map_of_eq_None_iff)
      with True show ?thesis by (cases p) (simp add: map_add_def)
    next
      case False
      then show ?thesis by (cases p) (simp add: map_add_def split: option.splits)
    qed
  qed
  finally show ?case .
qed

lemma keys_update:
  "set (keys (update d new)) = set (keys d) \<union> set (keys new)"
proof (induction new arbitrary: d)
  case Nil
  then show ?case by (simp add: keys_def)
next
  case (Cons p ps)
  then show ?case by (simp add: keys_setitem) (auto simp: keys_def)
qed

lemma distinct_update:
  "distinct (keys d) \<Longrightarrow> distinct (keys (update d new))"
  by (induction new arbitrary: d) (auto simp: distinct_setitem)

lemma update_not_empty: "d \<noteq> [] \<Longrightarrow> update d new \<noteq> []"
  by (induction new arbitrary: d) (auto simp: setitem_not_empty)

lemma keys_sorted_items: "set (keys (sorted_items d)) = set (keys d)"
  by (simp add: keys_def sorted_items_def)

lemma distinct_sorted_items:
  "distinct (keys d) \<Longrightarrow> distinct (keys (sorted_items d))"
proof -
  assume dist: "distinct (keys d)"
  have "distinct (map fst (sort_key fst d)) = distinct (map fst d)"
    by (simp add: distinct_map)
  with dist show ?thesis by (simp add: keys_def sorted_items_def)
qed

lemma map_of_sorted_items:
  "distinct (keys d) \<Longrightarrow> map_of (sorted_items d) = map_of d"
proof -
  assume dist: "distinct (keys d)"
  have "distinct (map fst (sorted_items d))"
    using distinct_sorted_items [OF dist] by (simp add: keys_def)
  moreover have "distinct (map fst d)"
    using dist by (simp add: keys_def)
  moreover have "set (sorted_items d) = set d"
    by (simp add: sorted_items_def)
  ultimately show ?thesis by (simp add: map_of_inject_set)
qed

lemma ascending_sorted_items:
  "distinct (keys d) \<Longrightarrow> sorted_wrt (<) (keys (sorted_items d))"
proof -
  assume dist: "distinct (keys d)"
  have "sorted (map fst (sort_key fst d))"
    by (rule sorted_sort_key)
  moreover have "distinct (map fst (sorted_items d))"
    using distinct_sorted_items [OF dist] by (simp add: keys_def)
  ultimately show ?thesis
    by (simp add: strict_sorted_iff keys_def sorted_items_def)
qed

lemma sorted_items_id:
  "sorted (keys d) \<Longrightarrow> sorted_items d = d"
  unfolding keys_def sorted_items_def
proof (induction d)
  case Nil
  then show ?case by simp
next
  case (Cons p ps)
  then have tail: "sort_key fst ps = ps" and le: "\<forall>q \<in> set ps. fst p \<le> fst q"
    by auto
  have "insort_key fst p ps = p # ps"
  proof (cases ps)
    case Nil
    then show ?thesis by simp
  next
    case (Cons q qs)
    with le show ?thesis by simp
  qed
  with tail show ?case by simp
qed

lemma setitem_same:
  "map_of d k = Some v \<Longrightarrow> setitem k v d = d"
  by (induction d) (auto split: if_splits)

lemma update_self_prefix:
  "distinct (keys (xs @ ys)) \<Longrightarrow> update (xs @ ys) ys = xs @ ys"
proof (induction ys arbitrary: xs)
  case Nil
  then show ?case by simp
next
  case (Cons p ps)
  have look: "map_of (xs @ p # ps) (fst p) = Some (snd p)"
  proof -
    from Cons.prems have "fst p \<notin> fst ` set xs" and "fst p \<notin> fst ` set ps"
      by (auto simp: keys_def)
    then have "map_of xs (fst p) = None" and "map_of ps (fst p) = None"
      by (simp_all add: map_of_eq_None_iff)
    then show ?thesis by (cases p) (simp add: map_add_def)
  qed
  have "update (xs @ p # ps) (p # ps) = update ((xs @ [p]) @ ps) ps"
    using setitem_same [OF look] by simp
  also have "\<dots> = (xs @ [p]) @ ps"
    using Cons.prems by (intro Cons.IH) simp
  finally show ?case by simp
qed

lemma update_self: "distinct (keys d) \<Longrightarrow> update d d = d"
  using update_self_prefix [of "[]" d] by simp

section \<open>Facts about dates\<close>

lemma digit_val_range: "is_digit c \<Longrightarrow> 0 \<le> digit_val c \<and> digit_val c \<le> 9"
  by (simp add: is_digit_def digit_val_def less_eq_char_def)

lemma month_token_range: "month_token t \<Longrightarrow> 1 \<le> int_of_digits t \<and> int_of_digits t \<le> 12"
  by (auto simp: month_token_def int_of_digits_def digit_val_def less_eq_char_def split: list.splits)

lemma day_token_range: "day_token t \<Longrightarrow> 1 \<le> int_of_digits (dropWhile (\<lambda>c. c = CHR '' '') t)"
  by (auto simp: day_token_def int_of_digits_def digit_val_def is_digit_def less_eq_char_def split: list.splits)


lemma year_token_range: "length t = 4 \<Longrightarrow> list_all is_digit t \<Longrightarrow> int_of_digits t \<le> 9999"
proof -
  assume len: "length t = 4" and dig: "list_all is_digit t"
  from len obtain a b c d where t: "t = [a, b, c, d]"
    by (auto simp: length_Suc_conv numeral_eq_Suc)
  with dig have "is_digit a" "is_digit b" "is_digit c" "is_digit d" by auto
  then show ?thesis using digit_val_range[of a] digit_val_range[of b] digit_val_range[of c] digit_val_range[of d]
    by (simp add: int_of_digits_def t)
qed

lemma strptime_valid: "strptime s = Inr t \<Longrightarrow> valid_date t"
proof -
  assume a: "strptime s = Inr t"
  define y_tok where "y_tok = take 4 s"
  define m_tok where "m_tok = takeWhile (\<lambda>c. c \<noteq> CHR ''-'') (drop 5 s)"
  define d_tok where "d_tok = drop 1 (dropWhile (\<lambda>c. c \<noteq> CHR ''-'') (drop 5 s))"
  define y where "y = int_of_digits y_tok"
  define m where "m = int_of_digits m_tok"
  define d where "d = int_of_digits (dropWhile (\<lambda>c. c = CHR '' '') d_tok)"
  from a have toks: "length y_tok = 4" "list_all is_digit y_tok" "month_token m_tok" "day_token d_tok"
    and chk: "1 \<le> y" "d \<le> days_in_month y m" and t: "t = \<lparr>year = y, month = m, day = d\<rparr>"
    unfolding strptime_def Let_def y_tok_def m_tok_def d_tok_def y_def m_def d_def
    by (auto split: if_splits)
  show ?thesis
    using year_token_range [OF toks(1,2)] month_token_range [OF toks(3)] day_token_range [OF toks(4)] chk
    by (simp add: valid_date_def t y_def m_def d_def)
qed

lemma digit_char_code:
  assumes "0 \<le> a" and "a \<le> 9"
  shows "of_char (digit_char a) = nat a + (48::nat)"
proof -
  from assms have "a = 0 \<or> a = 1 \<or> a = 2 \<or> a = 3 \<or> a = 4 \<or> a = 5 \<or> a = 6 \<or> a = 7 \<or> a = 8 \<or> a = 9"
    by arith
  then show ?thesis
    by (elim disjE) (simp_all add: digit_char_def)
qed

lemma digit_char_less:
  "0 \<le> a \<Longrightarrow> a \<le> 9 \<Longrightarrow> 0 \<le> b \<Longrightarrow> b \<le> 9 \<Longrightarrow> (digit_char a < digit_char b) = (a < b)"
  by (simp add: less_char_def digit_char_code) arith

lemma digit_char_eq:
  assumes "0 \<le> a" "a \<le> 9" "0 \<le> b" "b \<le> 9"
  shows "(digit_char a = digit_char b) = (a = b)"
proof
  assume "digit_char a = digit_char b"
  then have "(of_char (digit_char a) :: nat) = of_char (digit_char b)" by simp
  with assms show "a = b" by (simp add: digit_char_code)
qed simp



lemma lex10_less:
  fixes q r q' r' :: int
  assumes "0 \<le> r" "r \<le> 9" "0 \<le> r'" "r' \<le> 9"
  shows "(10 * q + r < 10 * q' + r') = (q < q' \<or> q = q' \<and> r < r')"
  using assms by arith

lemma lex10_eq:
  fixes q r q' r' :: int
  assumes "0 \<le> r" "r \<le> 9" "0 \<le> r'" "r' \<le> 9"
  shows "(10 * q + r = 10 * q' + r') = (q = q' \<and> r = r')"
proof -
  have "(10 * q + r = 10 * q' + r') = (\<not> 10 * q + r < 10 * q' + r' \<and> \<not> 10 * q' + r' < 10 * q + r)"
    by auto
  also have "\<dots> = (q = q' \<and> r = r')"
    unfolding lex10_less [OF assms] lex10_less [OF assms(3,4,1,2)] by auto
  finally show ?thesis .
qed


lemma lex100_less:
  fixes q r q' r' :: int
  assumes "0 \<le> r" "r \<le> 99" "0 \<le> r'" "r' \<le> 99"
  shows "(100 * q + r < 100 * q' + r') = (q < q' \<or> q = q' \<and> r < r')"
  using assms by arith

lemma lex100_eq:
  fixes q r q' r' :: int
  assumes "0 \<le> r" "r \<le> 99" "0 \<le> r'" "r' \<le> 99"
  shows "(100 * q + r = 100 * q' + r') = (q = q' \<and> r = r')"
proof -
  have "(100 * q + r = 100 * q' + r') =
        (\<not> 100 * q + r < 100 * q' + r' \<and> \<not> 100 * q' + r' < 100 * q + r)"
    by auto
  also have "\<dots> = (q = q' \<and> r = r')"
    unfolding lex100_less [OF assms] lex100_less [OF assms(3,4,1,2)] by auto
  finally show ?thesis .
qed

lemma two_digits_less:
  assumes "0 \<le> q" "q \<le> 9" "0 \<le> r" "r \<le> 9" "0 \<le> q'" "q' \<le> 9" "0 \<le> r'" "r' \<le> 9"
  shows "(digit_char q # digit_char r # xs < digit_char q' # digit_char r' # ys) =
         (10 * q + r < 10 * q' + r' \<or> 10 * q + r = 10 * q' + r' \<and> xs < ys)"
proof -
  have "(digit_char q # digit_char r # xs < digit_char q' # digit_char r' # ys) =
        (q < q' \<or> q = q' \<and> (r < r' \<or> r = r' \<and> xs < ys))"
    by (simp only: Cons_less_Cons digit_char_less [OF assms(1,2,5,6)]
        digit_char_less [OF assms(3,4,7,8)] digit_char_eq [OF assms(1,2,5,6)]
        digit_char_eq [OF assms(3,4,7,8)])
  also have "\<dots> = (10 * q + r < 10 * q' + r' \<or> 10 * q + r = 10 * q' + r' \<and> xs < ys)"
    unfolding lex10_less [OF assms(3,4,7,8)] lex10_eq [OF assms(3,4,7,8)] by blast
  finally show ?thesis .
qed



lemma pad2_less:
  assumes "0 \<le> a" "a \<le> 99" "0 \<le> b" "b \<le> 99"
  shows "(pad2 a @ xs < pad2 b @ ys) = (a < b \<or> a = b \<and> xs < ys)"
proof -
  have d: "0 \<le> a div 10" "a div 10 \<le> 9" "0 \<le> a mod 10" "a mod 10 \<le> 9"
    "0 \<le> b div 10" "b div 10 \<le> 9" "0 \<le> b mod 10" "b mod 10 \<le> 9"
    using assms by simp_all
  have a: "10 * (a div 10) + a mod 10 = a" and b: "10 * (b div 10) + b mod 10 = b"
    by simp_all
  show ?thesis
    unfolding pad2_def append_Cons append_Nil two_digits_less [OF d] a b ..
qed

lemma pad4_less:
  assumes "0 \<le> a" "a \<le> 9999" "0 \<le> b" "b \<le> 9999"
  shows "(pad4 a @ xs < pad4 b @ ys) = (a < b \<or> a = b \<and> xs < ys)"
proof -
  have d: "0 \<le> a div 100" "a div 100 \<le> 99" "0 \<le> b div 100" "b div 100 \<le> 99"
    using assms by simp_all
  have m: "0 \<le> a mod 100" "a mod 100 \<le> 99" "0 \<le> b mod 100" "b mod 100 \<le> 99"
    using assms by simp_all
  have a: "100 * (a div 100) + a mod 100 = a" and b: "100 * (b div 100) + b mod 100 = b"
    by simp_all
  have "(pad4 a @ xs < pad4 b @ ys) =
        (a div 100 < b div 100 \<or> a div 100 = b div 100 \<and>
           (a mod 100 < b mod 100 \<or> a mod 100 = b mod 100 \<and> xs < ys))"
    unfolding pad4_def append_assoc pad2_less [OF d] pad2_less [OF m] ..
  also have "\<dots> = (100 * (a div 100) + a mod 100 < 100 * (b div 100) + b mod 100 \<or>
       100 * (a div 100) + a mod 100 = 100 * (b div 100) + b mod 100 \<and> xs < ys)"
    unfolding lex100_less [OF m] lex100_eq [OF m] by blast
  finally show ?thesis unfolding a b .
qed

lemma strftime_less:
  assumes "valid_date a" and "valid_date b"
  shows "(strftime a < strftime b) = datetime_less a b"
proof -
  have y: "0 \<le> year a" "year a \<le> 9999" "0 \<le> year b" "year b \<le> 9999"
    using assms by (simp_all add: valid_date_def)
  have m: "0 \<le> month a" "month a \<le> 99" "0 \<le> month b" "month b \<le> 99"
    using assms by (simp_all add: valid_date_def)
  have "day a \<le> 31" "day b \<le> 31"
    using assms by (auto simp: valid_date_def days_in_month_def split: if_splits)
  then have d: "0 \<le> day a" "day a \<le> 99" "0 \<le> day b" "day b \<le> 99"
    using assms by (simp_all add: valid_date_def)
  have e: "(pad2 (day a) < pad2 (day b)) = (day a < day b)"
    using pad2_less [OF d, of "[]" "[]"] by simp
  have "(strftime a < strftime b) =
        (year a < year b \<or> year a = year b \<and>
          (month a < month b \<or> month a = month b \<and> (day a < day b \<or> day a = day b \<and> ([]::string) < [])))"
    unfolding strftime_def append_Cons append_Nil pad4_less [OF y] Cons_less_Cons pad2_less [OF m]
    by (simp add: e)
  then show ?thesis by (simp add: datetime_less_def)
qed



lemma datetime_ge_trans:
  "\<not> datetime_less a b \<Longrightarrow> \<not> datetime_less b c \<Longrightarrow> \<not> datetime_less a c"
  unfolding datetime_less_def by linarith

lemma datetime_less_ge:
  "datetime_less a b \<Longrightarrow> \<not> datetime_less b a"
  unfolding datetime_less_def by linarith

lemma datetime_less_irrefl: "\<not> datetime_less a a"
  by (simp add: datetime_less_def)

lemma max_from_in: "max_from m xs \<in> set (m # xs)"
  by (induction xs arbitrary: m) auto

lemma max_from_start: "m \<le> max_from m xs"
proof (induction xs arbitrary: m)
  case Nil
  then show ?case by simp
next
  case (Cons y ys)
  have "m \<le> (if m < y then y else m)" by (simp add: less_imp_le)
  also have "\<dots> \<le> max_from (if m < y then y else m) ys" by (rule Cons.IH)
  finally show ?case by simp
qed

lemma max_from_ge: "x \<in> set (m # xs) \<Longrightarrow> x \<le> max_from m xs"
proof (induction xs arbitrary: m)
  case Nil
  then show ?case by simp
next
  case (Cons y ys)
  have "x \<in> set ((if m < y then y else m) # ys) \<or> x \<le> (if m < y then y else m)"
    using Cons.prems by auto
  then show ?case
  proof
    assume "x \<in> set ((if m < y then y else m) # ys)"
    then show ?thesis using Cons.IH by simp
  next
    assume "x \<le> (if m < y then y else m)"
    also have "\<dots> \<le> max_from (if m < y then y else m) ys" by (rule max_from_start)
    finally show ?thesis by simp
  qed
qed

lemma py_max_keys:
  assumes "d \<noteq> []"
  obtains s where "py_max (keys d) = Inr s" "s \<in> set (keys d)" "\<forall>x \<in> set (keys d). x \<le> s"
proof -
  from assms obtain k ks where k: "keys d = k # ks"
    by (cases d) (auto simp: keys_def)
  have "py_max (keys d) = Inr (max_from k ks)"
    by (simp add: py_max_def k)
  moreover have "max_from k ks \<in> set (keys d)"
    unfolding k by (rule max_from_in)
  moreover have "\<forall>x \<in> set (keys d). x \<le> max_from k ks"
    unfolding k using max_from_ge by blast
  ultimately show ?thesis using that by blast
qed

lemma iso_dateD:
  assumes "iso_date s"
  obtains t where "strptime s = Inr t" "strftime t = s" "valid_date t"
  using assms strptime_valid by (auto simp: iso_date_def split: sum.splits)

lemma iso_date_order:
  assumes "iso_date s" "iso_date s'" "s' \<le> s" "strptime s = Inr t" "strptime s' = Inr t'"
  shows "\<not> datetime_less t t'"
proof -
  from assms have "strftime t = s" "strftime t' = s'" "valid_date t" "valid_date t'"
    by (auto elim!: iso_dateD)
  with assms(3) show ?thesis
    using strftime_less [of t t'] by auto
qed


lemma latest_date_loop_max:
  assumes "\<forall>s \<in> set (item_dates items). iso_date s"
  shows "\<exists>r. latest_date_loop items acc = Inr r \<and> is_latest r acc (item_dates items)"
  using assms
proof (induction items arbitrary: acc)
  case Nil
  then show ?case
    by (cases acc) (simp_all add: is_latest_def item_dates_def datetime_less_irrefl)
next
  case (Cons i rest)
  have dates: "item_dates (i # rest) = (case data i of None \<Rightarrow> [] | Some d \<Rightarrow> keys d) @ item_dates rest"
    by (simp add: item_dates_def)
  from Cons.prems have iso_rest: "\<forall>s \<in> set (item_dates rest). iso_date s"
    by (simp add: dates)
  show ?case
  proof (cases "\<exists>d. data i = Some d \<and> d \<noteq> []")
    case False
    then have skip: "latest_date_loop (i # rest) acc = latest_date_loop rest acc"
      and same: "item_dates (i # rest) = item_dates rest"
      by (auto simp: dates keys_def split: option.splits)
    show ?thesis
      unfolding skip same by (rule Cons.IH [OF iso_rest])
  next
    case True
    then obtain d where d: "data i = Some d" "d \<noteq> []" by blast
    obtain s where s: "py_max (keys d) = Inr s" "s \<in> set (keys d)" "\<forall>x \<in> set (keys d). x \<le> s"
      using py_max_keys [OF d(2)] by blast
    have iso_d: "\<forall>x \<in> set (keys d). iso_date x"
      using Cons.prems by (simp add: dates d)
    then have "iso_date s" using s(2) by blast
    then obtain t where t: "strptime s = Inr t"
      by (auto elim: iso_dateD)
    have t_top: "\<not> datetime_less t t'" if "x \<in> set (keys d)" "strptime x = Inr t'" for x t'
      using iso_date_order [of s x t t'] iso_d s that t \<open>iso_date s\<close> by blast
    define acc' where "acc' = (case acc of None \<Rightarrow> Some t
                   | Some l \<Rightarrow> if datetime_less l t then Some t else Some l)"
    have step: "latest_date_loop (i # rest) acc = latest_date_loop rest acc'"
      by (simp add: d s t acc'_def split: option.splits)
    obtain r where r: "latest_date_loop rest acc' = Inr r" "is_latest r acc' (item_dates rest)"
      using Cons.IH [OF iso_rest, of acc'] by blast
    have "\<exists>a. acc' = Some a \<and> \<not> datetime_less a t \<and> (a = t \<or> acc = Some a) \<and>
            (\<forall>l. acc = Some l \<longrightarrow> \<not> datetime_less a l)"
    proof (cases acc)
      case None
      then show ?thesis by (simp add: acc'_def datetime_less_irrefl)
    next
      case (Some l)
      then show ?thesis
        by (cases "datetime_less l t")
           (simp_all add: acc'_def datetime_less_irrefl datetime_less_ge)
    qed
    then obtain a where a: "acc' = Some a" "\<not> datetime_less a t"
      "a = t \<or> acc = Some a" "\<forall>l. acc = Some l \<longrightarrow> \<not> datetime_less a l"
      by blast
    from r(2) a(1) obtain u where u: "r = Some u"
      by (cases r) (auto simp: is_latest_def)
    from r(2) have u_from: "u = a \<or> (\<exists>x \<in> set (item_dates rest). strptime x = Inr u)"
      and u_a: "\<not> datetime_less u a"
      and u_rest: "\<forall>x \<in> set (item_dates rest). \<forall>t'. strptime x = Inr t' \<longrightarrow> \<not> datetime_less u t'"
      by (auto simp: is_latest_def u a(1))
    have 1: "acc = Some u \<or> (\<exists>x \<in> set (item_dates (i # rest)). strptime x = Inr u)"
      using u_from a(3) s(2) t by (auto simp: dates d)
    have 2: "\<forall>l. acc = Some l \<longrightarrow> \<not> datetime_less u l"
      using a(4) u_a datetime_ge_trans by blast
    have "\<not> datetime_less u t'" if "x \<in> set (keys d)" "strptime x = Inr t'" for x t'
      using t_top [OF that] a(2) u_a datetime_ge_trans by blast
    with u_rest have 3: "\<forall>x \<in> set (item_dates (i # rest)). \<forall>t'. strptime x = Inr t' \<longrightarrow> \<not> datetime_less u t'"
      by (auto simp: dates d)
    have "is_latest r acc (item_dates (i # rest))"
      unfolding is_latest_def u using 1 2 3 by simp
    with step r(1) show ?thesis by simp
  qed
qed


lemma days_in_month_ge: "28 \<le> days_in_month y m"
  by (simp add: days_in_month_def)

lemma days_in_month_le: "days_in_month y m \<le> 31"
  by (simp add: days_in_month_def)

lemma prev_day_step:
  assumes "valid_date t" and "1 < day_rank t"
  shows "\<exists>p. prev_day t = Inr p \<and> valid_date p \<and> day_rank t - 4 \<le> day_rank p"
proof -
  from assms(1) have y: "1 \<le> year t" "year t \<le> 9999" and m: "1 \<le> month t" "month t \<le> 12"
    and d: "1 \<le> day t" "day t \<le> days_in_month (year t) (month t)"
    by (simp_all add: valid_date_def)
  from assms(2) have r: "1 < 372 * (year t - 1) + 31 * (month t - 1) + day t"
    by (simp add: day_rank_def)
  have "1 < day t \<or> (day t = 1 \<and> 1 < month t) \<or> (day t = 1 \<and> month t = 1 \<and> 1 < year t)"
  proof (cases "1 < day t")
    case True
    then show ?thesis by simp
  next
    case False
    with d(1) have d1: "day t = 1" by simp
    show ?thesis
    proof (cases "1 < month t")
      case True
      with d1 show ?thesis by simp
    next
      case False
      with m(1) have m1: "month t = 1" by simp
      from r have "1 < year t" by (simp add: d1 m1)
      with d1 m1 show ?thesis by simp
    qed
  qed
  then consider "1 < day t" | "day t = 1" "1 < month t" | "day t = 1" "month t = 1" "1 < year t"
    by blast
  then show ?thesis
  proof cases
    case 1
    have "prev_day t = Inr (t\<lparr>day := day t - 1\<rparr>)"
      using 1 by (simp add: prev_day_def)
    moreover have "valid_date (t\<lparr>day := day t - 1\<rparr>)"
      using 1 y m d by (simp add: valid_date_def)
    moreover have "day_rank t - 4 \<le> day_rank (t\<lparr>day := day t - 1\<rparr>)"
      by (simp add: day_rank_def)
    ultimately show ?thesis by blast
  next
    case 2
    define p where "p = t\<lparr>month := month t - 1, day := days_in_month (year t) (month t - 1)\<rparr>"
    have "prev_day t = Inr p"
      using 2 by (simp add: prev_day_def p_def)
    moreover have "valid_date p"
      using 2 y m days_in_month_ge [of "year t" "month t - 1"]
      by (simp add: valid_date_def p_def)
    moreover have "day_rank t - 4 \<le> day_rank p"
      using 2 days_in_month_ge [of "year t" "month t - 1"]
      by (simp add: day_rank_def p_def)
    ultimately show ?thesis by blast
  next
    case 3
    define p where "p = \<lparr>year = year t - 1, month = 12, day = 31\<rparr>"
    have "prev_day t = Inr p"
      using 3 by (simp add: prev_day_def p_def)
    moreover have "valid_date p"
      using 3 y by (simp add: valid_date_def p_def days_in_month_def)
    moreover have "day_rank t - 4 \<le> day_rank p"
      using 3 by (simp add: day_rank_def p_def)
    ultimately show ?thesis by blast
  qed
qed

lemma minus_days_total:
  "valid_date t \<Longrightarrow> 4 * int n < day_rank t \<Longrightarrow> \<exists>r. minus_days t n = Inr r \<and> valid_date r"
proof (induction n arbitrary: t)
  case 0
  then show ?case by simp
next
  case (Suc n)
  have "1 \<le> day_rank t" using Suc.prems by simp
  with Suc.prems obtain p where p: "prev_day t = Inr p" "valid_date p" "day_rank t - 4 \<le> day_rank p"
    using prev_day_step [of t] by auto
  with Suc.prems have "4 * int n < day_rank p" by simp
  from Suc.IH [OF p(2) this] show ?case by (simp add: p(1))
qed

text \<open>Every calendar day printed by \<open>strftime\<close> is read back by \<open>strptime\<close>.\<close>

lemma digit_char_facts:
  assumes "0 \<le> k" and "k \<le> 9"
  shows "is_digit (digit_char k)" and "digit_char k \<noteq> CHR ''-''" and "digit_char k \<noteq> CHR '' ''"
    and "digit_val (digit_char k) = k"
proof -
  have c: "of_char (digit_char k) = nat k + (48::nat)"
    using assms by (rule digit_char_code)
  show "is_digit (digit_char k)"
    using assms by (simp add: is_digit_def less_eq_char_def c)
  show "digit_char k \<noteq> CHR ''-''"
  proof
    assume "digit_char k = CHR ''-''"
    then have "(of_char (digit_char k) :: nat) = of_char CHR ''-''" by simp
    then show False by (simp add: c)
  qed
  show "digit_char k \<noteq> CHR '' ''"
  proof
    assume "digit_char k = CHR '' ''"
    then have "(of_char (digit_char k) :: nat) = of_char CHR '' ''" by simp
    then show False by (simp add: c)
  qed
  show "digit_val (digit_char k) = k"
    using assms by (simp add: digit_val_def c)
qed

lemma int_of_pad2:
  assumes "0 \<le> n" and "n \<le> 99"
  shows "int_of_digits (pad2 n) = n"
proof -
  have d: "0 \<le> n div 10" "n div 10 \<le> 9" "0 \<le> n mod 10" "n mod 10 \<le> 9"
    using assms by simp_all
  show ?thesis
    by (simp add: int_of_digits_def pad2_def digit_char_facts(4) [OF d(1,2)]
        digit_char_facts(4) [OF d(3,4)])
qed

lemma int_of_pad4:
  assumes "0 \<le> n" and "n \<le> 9999"
  shows "int_of_digits (pad4 n) = n"
proof -
  have h: "0 \<le> n div 100" "n div 100 \<le> 99" "0 \<le> n mod 100" "n mod 100 \<le> 99"
    using assms by simp_all
  have "int_of_digits (xs @ ys) = foldl (\<lambda>n c. 10 * n + digit_val c) (int_of_digits xs) ys" for xs ys
    by (simp add: int_of_digits_def)
  then have "int_of_digits (pad4 n) = 100 * int_of_digits (pad2 (n div 100)) + int_of_digits (pad2 (n mod 100))"
    by (simp add: pad4_def) (simp add: pad2_def int_of_digits_def)
  then show ?thesis
    by (simp add: int_of_pad2 [OF h(1,2)] int_of_pad2 [OF h(3,4)])
qed

lemma month_token_pad2:
  assumes "1 \<le> m" and "m \<le> 12"
  shows "month_token (pad2 m)"
proof -
  from assms have "m = 1 \<or> m = 2 \<or> m = 3 \<or> m = 4 \<or> m = 5 \<or> m = 6 \<or> m = 7 \<or> m = 8 \<or>
      m = 9 \<or> m = 10 \<or> m = 11 \<or> m = 12"
    by arith
  then show ?thesis
    by (elim disjE) (simp_all add: month_token_def pad2_def digit_char_def)
qed

lemma day_token_pad2:
  assumes "1 \<le> d" and "d \<le> 31"
  shows "day_token (pad2 d)"
proof -
  have q: "0 \<le> d div 10" "d div 10 \<le> 3" and r: "0 \<le> d mod 10" "d mod 10 \<le> 9"
    using assms by simp_all
  have dm: "d = 10 * (d div 10) + d mod 10"
    by simp
  from q have "d div 10 = 0 \<or> d div 10 = 1 \<or> d div 10 = 2 \<or> d div 10 = 3" by arith
  then show ?thesis
  proof (elim disjE)
    assume z: "d div 10 = 0"
    with dm assms have "1 \<le> d mod 10"
      by simp
    with r have "CHR ''1'' \<le> digit_char (d mod 10) \<and> digit_char (d mod 10) \<le> CHR ''9''"
      by (simp add: less_eq_char_def digit_char_code) arith
    then show ?thesis
      by (simp add: day_token_def pad2_def z digit_char_def)
  next
    assume z: "d div 10 = 1"
    show ?thesis
      using digit_char_facts(1) [OF r]
      by (simp add: day_token_def pad2_def z digit_char_def)
  next
    assume z: "d div 10 = 2"
    show ?thesis
      using digit_char_facts(1) [OF r]
      by (simp add: day_token_def pad2_def z digit_char_def)
  next
    assume z: "d div 10 = 3"
    with dm assms have "d mod 10 \<le> 1"
      by simp
    with r have "CHR ''0'' \<le> digit_char (d mod 10) \<and> digit_char (d mod 10) \<le> CHR ''1''"
      by (simp add: less_eq_char_def digit_char_code)
    then show ?thesis
      by (simp add: day_token_def pad2_def z digit_char_def)
  qed
qed


lemma strptime_strftime:
  assumes "valid_date t"
  shows "strptime (strftime t) = Inr t"
proof -
  from assms have y: "0 \<le> year t" "year t \<le> 9999" "1 \<le> year t"
    and m: "1 \<le> month t" "month t \<le> 12" "0 \<le> month t" "month t \<le> 99"
    and d: "1 \<le> day t" "day t \<le> days_in_month (year t) (month t)" "0 \<le> day t"
    by (simp_all add: valid_date_def)
  have d31: "day t \<le> 31" "day t \<le> 99"
    using d(2) days_in_month_le [of "year t" "month t"] by simp_all
  have yd: "0 \<le> year t div 100 div 10" "year t div 100 div 10 \<le> 9"
    "0 \<le> year t div 100 mod 10" "year t div 100 mod 10 \<le> 9"
    "0 \<le> year t mod 100 div 10" "year t mod 100 div 10 \<le> 9"
    "0 \<le> year t mod 100 mod 10" "year t mod 100 mod 10 \<le> 9"
    using y by simp_all
  have md: "0 \<le> month t div 10" "month t div 10 \<le> 9" "0 \<le> month t mod 10" "month t mod 10 \<le> 9"
    using m by simp_all
  have dd: "0 \<le> day t div 10" "day t div 10 \<le> 9" "0 \<le> day t mod 10" "day t mod 10 \<le> 9"
    using d d31 by simp_all
  note f1 = digit_char_facts [OF yd(1,2)] and f2 = digit_char_facts [OF yd(3,4)]
    and f3 = digit_char_facts [OF yd(5,6)] and f4 = digit_char_facts [OF yd(7,8)]
    and g1 = digit_char_facts [OF md(1,2)] and g2 = digit_char_facts [OF md(3,4)]
    and h1 = digit_char_facts [OF dd(1,2)] and h2 = digit_char_facts [OF dd(3,4)]
  have toks: "take 4 (strftime t) = pad4 (year t)"
    "take 1 (drop 4 (strftime t)) = ''-''"
    "takeWhile (\<lambda>c. c \<noteq> CHR ''-'') (drop 5 (strftime t)) = pad2 (month t)"
    "dropWhile (\<lambda>c. c \<noteq> CHR ''-'') (drop 5 (strftime t)) = CHR ''-'' # pad2 (day t)"
    using g1(2) g2(2) by (simp_all add: strftime_def pad4_def pad2_def)
  have len: "length (pad4 (year t)) = 4" and dig: "list_all is_digit (pad4 (year t))"
    using f1(1) f2(1) f3(1) f4(1) by (simp_all add: pad4_def pad2_def)
  have sp: "dropWhile (\<lambda>c. c = CHR '' '') (pad2 (day t)) = pad2 (day t)"
    using h1(3) by (simp add: pad2_def)
  have vals: "int_of_digits (pad4 (year t)) = year t" "int_of_digits (pad2 (month t)) = month t"
    "int_of_digits (pad2 (day t)) = day t"
    using int_of_pad4 [OF y(1,2)] int_of_pad2 [OF m(3,4)] int_of_pad2 [OF d(3) d31(2)] by simp_all
  show ?thesis
    unfolding strptime_def toks Let_def
    using len dig month_token_pad2 [OF m(1,2)] day_token_pad2 [OF d(1) d31(1)] y(3) d(2)
    by (simp add: sp vals)
qed

lemma iso_date_strftime: "valid_date t \<Longrightarrow> iso_date (strftime t)"
  by (simp add: iso_date_def strptime_strftime)

section \<open>merge\_data\<close>

lemma distinct_merge_data:
  "distinct (keys P) \<Longrightarrow> distinct (keys F) \<Longrightarrow> distinct (keys (merge_data P F t))"
  by (simp add: merge_data_def distinct_sorted_items distinct_update)

lemma map_of_merge_data:
  "distinct (keys P) \<Longrightarrow> distinct (keys F) \<Longrightarrow> map_of (merge_data P F t) = map_of P ++ map_of F"
  by (simp add: merge_data_def map_of_sorted_items distinct_update map_of_update)

lemma keys_merge_data:
  "set (keys (merge_data P F t)) = set (keys P) \<union> set (keys F)"
  by (simp add: merge_data_def keys_sorted_items keys_update) (simp add: keys_def)

text \<open>
  C2. For prior and fresh time series \<open>P\<close> and \<open>F\<close> (dictionaries, so without repeated
  dates), the dates of \<open>merge_data P F\<close> are those of \<open>P\<close> together with those of \<open>F\<close>,
  each date once, and the value at a date is that of \<open>F\<close> when \<open>F\<close> has the date and that
  of \<open>P\<close> otherwise.
\<close>

theorem merge_data_union_overwrite:
  assumes "distinct (keys P)" and "distinct (keys F)"
  shows "set (keys (merge_data P F t)) = set (keys P) \<union> set (keys F) \<and>
         distinct (keys (merge_data P F t)) \<and>
         (\<forall>d. map_of (merge_data P F t) d =
                (if d \<in> set (keys F) then map_of F d else map_of P d))"
proof -
  have "map_of (merge_data P F t) d = (if d \<in> set (keys F) then map_of F d else map_of P d)"
    for d
  proof (cases "d \<in> set (keys F)")
    case True
    then have "map_of F d \<noteq> None"
      by (simp add: keys_def map_of_eq_None_iff)
    then show ?thesis
      using True assms by (auto simp: map_of_merge_data map_add_def)
  next
    case False
    then have "map_of F d = None"
      by (simp add: keys_def map_of_eq_None_iff)
    then show ?thesis
      using False assms by (simp add: map_of_merge_data map_add_def)
  qed
  then show ?thesis
    using assms by (simp add: keys_merge_data distinct_merge_data)
qed

theorem merge_data_union_overwrite_witness:
  "distinct (keys [(''2023-01-01'', 100::int), (''2022-12-30'', 99)]) \<and>
   distinct (keys [(''2023-01-01'', 101::int), (''2023-01-02'', 102)]) \<and>
   set (keys (merge_data [(''2023-01-01'', 100::int), (''2022-12-30'', 99)]
                [(''2023-01-01'', 101), (''2023-01-02'', 102)] ''MSFT'')) =
     {''2022-12-30'', ''2023-01-01'', ''2023-01-02''} \<and>
   map_of (merge_data [(''2023-01-01'', 100::int), (''2022-12-30'', 99)]
             [(''2023-01-01'', 101), (''2023-01-02'', 102)] ''MSFT'') ''2023-01-01'' = Some 101 \<and>
   map_of (merge_data [(''2023-01-01'', 100::int), (''2022-12-30'', 99)]
             [(''2023-01-01'', 101), (''2023-01-02'', 102)] ''MSFT'') ''2022-12-30'' = Some 99"
proof -
  have p: "distinct (keys [(''2023-01-01'', 100::int), (''2022-12-30'', 99)])"
    by (simp add: keys_def)
  have f: "distinct (keys [(''2023-01-01'', 101::int), (''2023-01-02'', 102)])"
    by (simp add: keys_def)
  show ?thesis
    using p f merge_data_union_overwrite [OF p f, of "''MSFT''"]
    by (auto simp: keys_def)
qed

text \<open>
  C3, as the code has it. With a prior series that is not empty (and has every date once),
  the dates of the merged series are in strictly ascending order, so none is repeated.
  With an empty prior series the fresh series is returned as it is: its dates are in
  strictly ascending order exactly when those of the fresh series are.
\<close>

theorem merge_data_ascending:
  "(P \<noteq> [] \<and> distinct (keys P) \<longrightarrow> sorted_wrt (<) (keys (merge_data P F t))) \<and>
   (sorted_wrt (<) (keys (merge_data [] F t)) \<longleftrightarrow> sorted_wrt (<) (keys F))"
proof -
  have "sorted_wrt (<) (keys (merge_data P F t))" if "P \<noteq> []" and "distinct (keys P)"
    using that by (simp add: merge_data_def ascending_sorted_items distinct_update)
  then show ?thesis by (simp add: merge_data_def)
qed

theorem merge_data_ascending_witness:
  "[(''2023-01-03'', 1::int)] \<noteq> [] \<and> distinct (keys [(''2023-01-03'', 1::int)]) \<and>
   sorted_wrt (<) (keys (merge_data [(''2023-01-03'', 1::int)]
                           [(''2023-01-02'', 2), (''2023-01-01'', 3)] ''MSFT'')) \<and>
   merge_data [(''2023-01-03'', 1::int)] [(''2023-01-02'', 2), (''2023-01-01'', 3)] ''MSFT'' =
     [(''2023-01-01'', 3), (''2023-01-02'', 2), (''2023-01-03'', 1)]"
proof -
  have h: "[(''2023-01-03'', 1::int)] \<noteq> [] \<and> distinct (keys [(''2023-01-03'', 1::int)])"
    by (simp add: keys_def)
  have e: "merge_data [(''2023-01-03'', 1::int)] [(''2023-01-02'', 2), (''2023-01-01'', 3)] ''MSFT'' =
     [(''2023-01-01'', 3), (''2023-01-02'', 2), (''2023-01-03'', 1)]"
    by code_simp
  from h merge_data_ascending
    [of "[(''2023-01-03'', 1::int)]" "[(''2023-01-02'', 2), (''2023-01-01'', 3)]" "''MSFT''"]
  have "sorted_wrt (<) (keys (merge_data [(''2023-01-03'', 1::int)]
                           [(''2023-01-02'', 2), (''2023-01-01'', 3)] ''MSFT''))"
    by blast
  with h e show ?thesis by blast
qed

text \<open>
  C3, as the claim states it, fails for an empty prior series and a fresh series that is
  not in ascending order.
\<close>

theorem merge_data_unsorted_counterexample:
  "\<not> sorted_wrt (<) (keys (merge_data [] [(''2023-01-02'', 1::int), (''2023-01-01'', 2)] ''MSFT''))"
  by (simp add: merge_data_def keys_def)

text \<open>
  C7. Merging a time series \<open>S\<close> (every date once) with itself gives the same mapping: the
  same items, every date once, the same value at every date. The items come out by
  ascending date, so the result is \<open>S\<close> itself when \<open>S\<close> is in that order.
\<close>

theorem merge_data_idempotent:
  assumes "distinct (keys S)"
  shows "set (merge_data S S t) = set S \<and>
         distinct (keys (merge_data S S t)) \<and>
         map_of (merge_data S S t) = map_of S \<and>
         (sorted (keys S) \<longrightarrow> merge_data S S t = S)"
proof -
  have eq: "merge_data S S t = (if S = [] then S else sorted_items S)"
    using assms by (simp add: merge_data_def update_self)
  have "set (merge_data S S t) = set S"
    by (simp add: eq sorted_items_def)
  moreover have "distinct (keys (merge_data S S t))"
    using assms by (simp add: eq distinct_sorted_items) (simp add: keys_def)
  moreover have "map_of (merge_data S S t) = map_of S"
    using assms by (simp add: eq map_of_sorted_items)
  moreover have "merge_data S S t = S" if "sorted (keys S)"
    using that by (simp add: eq sorted_items_id)
  ultimately show ?thesis by blast
qed

theorem merge_data_idempotent_witness:
  "distinct (keys [(''2023-01-01'', 100::int), (''2023-01-02'', 102)]) \<and>
   sorted (keys [(''2023-01-01'', 100::int), (''2023-01-02'', 102)]) \<and>
   merge_data [(''2023-01-01'', 100::int), (''2023-01-02'', 102)]
     [(''2023-01-01'', 100), (''2023-01-02'', 102)] ''MSFT'' =
   [(''2023-01-01'', 100), (''2023-01-02'', 102)]"
proof -
  have d: "distinct (keys [(''2023-01-01'', 100::int), (''2023-01-02'', 102)])"
    by (simp add: keys_def)
  have o: "sorted (keys [(''2023-01-01'', 100::int), (''2023-01-02'', 102)])"
    by (simp add: keys_def)
  show ?thesis
    using d o merge_data_idempotent [OF d, of "''MSFT''"] by blast
qed

text \<open>
  C10. With an empty prior series \<open>merge_data\<close> returns the fresh series as it is given:
  the same items in the same order, sorted or not.
\<close>

theorem merge_data_empty_prior:
  "merge_data [] F t = F"
  by (simp add: merge_data_def)

section \<open>The start date of the download\<close>

text \<open>
  C5. On a first run, and whenever the existing document is empty, the start date is
  2020-01-01, whatever the existing document holds and whatever the current date is.
\<close>

theorem start_date_first_run:
  "is_first_run \<or> existing_data = [] \<Longrightarrow>
   start_date_of is_first_run existing_data today = Inr ''2020-01-01''"
  by (auto simp: start_date_of_def)

theorem start_date_first_run_witness:
  "(True \<or> [(''MSFT.O'', \<lparr>name = ''Microsoft'', data = Some [(''2023-01-12'', 100::int)]\<rparr>)] = []) \<and>
   start_date_of True [(''MSFT.O'', \<lparr>name = ''Microsoft'', data = Some [(''2023-01-12'', 100::int)]\<rparr>)]
     \<lparr>year = 2026, month = 11, day = 4\<rparr> = Inr ''2020-01-01''"
  using start_date_first_run
    [of True "[(''MSFT.O'', \<lparr>name = ''Microsoft'', data = Some [(''2023-01-12'', 100::int)]\<rparr>)]"
        "\<lparr>year = 2026, month = 11, day = 4\<rparr>"]
  by simp

text \<open>
  C4. On a run that is not a first run, with an existing document in which some
  instrument has time-series entries and every date is written \<open>YYYY-MM-DD\<close>, the start
  date is the day before the latest date \<open>t\<close> found in any time series of the document,
  printed as \<open>YYYY-MM-DD\<close>. That day exists unless \<open>t\<close> is 0001-01-01, the first day a
  \<open>datetime\<close> can hold. The current date plays no part.
\<close>

theorem start_date_incremental:
  assumes "observed_dates existing_data \<noteq> []"
    and "\<forall>s \<in> set (observed_dates existing_data). iso_date s"
  shows "\<exists>t. (\<exists>s \<in> set (observed_dates existing_data). strptime s = Inr t) \<and>
             (\<forall>s \<in> set (observed_dates existing_data). \<forall>t'.
                 strptime s = Inr t' \<longrightarrow> \<not> datetime_less t t') \<and>
             start_date_of False existing_data today =
               (case prev_day t of Inl e \<Rightarrow> Inl e | Inr p \<Rightarrow> Inr (strftime p)) \<and>
             (t \<noteq> \<lparr>year = 1, month = 1, day = 1\<rparr> \<longrightarrow> (\<exists>p. prev_day t = Inr p \<and> valid_date p))"
proof -
  from assms(1) have ne: "existing_data \<noteq> []"
    by (auto simp: observed_dates_def item_dates_def)
  obtain r where r: "latest_date_loop (map snd existing_data) None = Inr r"
    "is_latest r None (observed_dates existing_data)"
    using latest_date_loop_max [of "map snd existing_data" None] assms(2)
    by (auto simp: observed_dates_def)
  with assms(1) obtain t where t: "r = Some t"
    by (cases r) (auto simp: is_latest_def)
  from r(2) have src: "\<exists>s \<in> set (observed_dates existing_data). strptime s = Inr t"
    and top: "\<forall>s \<in> set (observed_dates existing_data). \<forall>t'.
                 strptime s = Inr t' \<longrightarrow> \<not> datetime_less t t'"
    by (auto simp: is_latest_def t)
  have res: "start_date_of False existing_data today =
               (case prev_day t of Inl e \<Rightarrow> Inl e | Inr p \<Rightarrow> Inr (strftime p))"
    using ne by (simp add: start_date_of_def r(1) t split: sum.splits)
  from src have v: "valid_date t" using strptime_valid by blast
  have "\<exists>p. prev_day t = Inr p \<and> valid_date p" if "t \<noteq> \<lparr>year = 1, month = 1, day = 1\<rparr>"
  proof -
    have "1 < day_rank t"
    proof (rule ccontr)
      assume "\<not> 1 < day_rank t"
      with v have "year t = 1 \<and> month t = 1 \<and> day t = 1"
        by (auto simp: valid_date_def day_rank_def)
      with that show False by (cases t) simp
    qed
    from prev_day_step [OF v this] show ?thesis by blast
  qed
  with src top res show ?thesis by blast
qed

theorem start_date_incremental_witness:
  "observed_dates
     [(''MSFT.O'', \<lparr>name = ''Microsoft'', data = Some [(''2023-01-09'', 1::int), (''2023-01-10'', 2)]\<rparr>),
      (''AAPL.O'', \<lparr>name = ''Apple'', data = Some [(''2023-01-12'', 3)]\<rparr>)] \<noteq> [] \<and>
   list_all iso_date (observed_dates
     [(''MSFT.O'', \<lparr>name = ''Microsoft'', data = Some [(''2023-01-09'', 1::int), (''2023-01-10'', 2)]\<rparr>),
      (''AAPL.O'', \<lparr>name = ''Apple'', data = Some [(''2023-01-12'', 3)]\<rparr>)]) \<and>
   start_date_of False
     [(''MSFT.O'', \<lparr>name = ''Microsoft'', data = Some [(''2023-01-09'', 1::int), (''2023-01-10'', 2)]\<rparr>),
      (''AAPL.O'', \<lparr>name = ''Apple'', data = Some [(''2023-01-12'', 3)]\<rparr>)]
     \<lparr>year = 2026, month = 11, day = 4\<rparr> = Inr ''2023-01-11'' \<and>
   (\<exists>t. strptime ''2023-01-12'' = Inr t \<and>
        start_date_of False
     [(''MSFT.O'', \<lparr>name = ''Microsoft'', data = Some [(''2023-01-09'', 1::int), (''2023-01-10'', 2)]\<rparr>),
      (''AAPL.O'', \<lparr>name = ''Apple'', data = Some [(''2023-01-12'', 3)]\<rparr>)]
     \<lparr>year = 2026, month = 11, day = 4\<rparr> =
          (case prev_day t of Inl e \<Rightarrow> Inl e | Inr p \<Rightarrow> Inr (strftime p)))"
proof -
  define doc :: "int document" where "doc =
     [(''MSFT.O'', \<lparr>name = ''Microsoft'', data = Some [(''2023-01-09'', 1::int), (''2023-01-10'', 2)]\<rparr>),
      (''AAPL.O'', \<lparr>name = ''Apple'', data = Some [(''2023-01-12'', 3)]\<rparr>)]"
  have dates: "observed_dates doc = [''2023-01-09'', ''2023-01-10'', ''2023-01-12'']"
    unfolding doc_def by code_simp
  have h1: "observed_dates doc \<noteq> []"
    by (simp add: dates)
  have i1: "iso_date ''2023-01-09''" by code_simp
  have i2: "iso_date ''2023-01-10''" by code_simp
  have i3: "iso_date ''2023-01-12''" by code_simp
  have h2: "\<forall>s \<in> set (observed_dates doc). iso_date s"
    by (simp add: dates i1 i2 i3)
  have p1: "strptime ''2023-01-09'' = Inr \<lparr>year = 2023, month = 1, day = 9\<rparr>" by code_simp
  have p2: "strptime ''2023-01-10'' = Inr \<lparr>year = 2023, month = 1, day = 10\<rparr>" by code_simp
  have p3: "strptime ''2023-01-12'' = Inr \<lparr>year = 2023, month = 1, day = 12\<rparr>" by code_simp
  from start_date_incremental [OF h1 h2, of "\<lparr>year = 2026, month = 11, day = 4\<rparr>"]
  obtain t where t: "\<exists>s \<in> set (observed_dates doc). strptime s = Inr t"
    "\<forall>s \<in> set (observed_dates doc). \<forall>t'. strptime s = Inr t' \<longrightarrow> \<not> datetime_less t t'"
    "start_date_of False doc \<lparr>year = 2026, month = 11, day = 4\<rparr> =
       (case prev_day t of Inl e \<Rightarrow> Inl e | Inr p \<Rightarrow> Inr (strftime p))"
    by blast
  from t(2) have "\<not> datetime_less t \<lparr>year = 2023, month = 1, day = 12\<rparr>"
    by (simp add: dates p3)
  with t(1) have t12: "t = \<lparr>year = 2023, month = 1, day = 12\<rparr>"
    by (auto simp: dates p1 p2 p3 datetime_less_def)
  have "start_date_of False doc \<lparr>year = 2026, month = 11, day = 4\<rparr> = Inr ''2023-01-11''"
    unfolding t(3) t12 by code_simp
  moreover have "list_all iso_date (observed_dates doc)"
    using h2 by (simp add: list_all_iff)
  ultimately show ?thesis
    using h1 t(3) t12 p3 unfolding doc_def by blast
qed

text \<open>
  C6. On a run that is not a first run, with an existing document that is not empty and
  in which no instrument has a time-series entry, the start date is the current date
  minus 1825 days, printed as \<open>YYYY-MM-DD\<close>; for a current date from the year 21 on that
  day exists.
\<close>

theorem start_date_no_entries:
  assumes "existing_data \<noteq> []" and "observed_dates existing_data = []"
  shows "start_date_of False existing_data today =
           (case minus_days today 1825 of Inl e \<Rightarrow> Inl e | Inr t \<Rightarrow> Inr (strftime t)) \<and>
         (valid_date today \<and> 21 \<le> year today \<longrightarrow> (\<exists>t. minus_days today 1825 = Inr t))"
proof -
  obtain r where r: "latest_date_loop (map snd existing_data) None = Inr r"
    "is_latest r None (observed_dates existing_data)"
    using latest_date_loop_max [of "map snd existing_data" None] assms(2)
    by (auto simp: observed_dates_def)
  with assms(2) have "r = None"
    by (cases r) (auto simp: is_latest_def)
  with r(1) assms(1) have "start_date_of False existing_data today =
           (case minus_days today 1825 of Inl e \<Rightarrow> Inl e | Inr t \<Rightarrow> Inr (strftime t))"
    by (simp add: start_date_of_def)
  moreover have "\<exists>t. minus_days today 1825 = Inr t" if "valid_date today" "21 \<le> year today"
  proof -
    have "4 * int 1825 < day_rank today"
      using that by (simp add: day_rank_def valid_date_def)
    from minus_days_total [OF that(1) this] show ?thesis by blast
  qed
  ultimately show ?thesis by blast
qed

theorem start_date_no_entries_witness:
  "[(''MSFT.O'', \<lparr>name = ''Microsoft'', data = Some ([] :: int series)\<rparr>),
    (''AAPL.O'', \<lparr>name = ''Apple'', data = None\<rparr>)] \<noteq> [] \<and>
   observed_dates [(''MSFT.O'', \<lparr>name = ''Microsoft'', data = Some ([] :: int series)\<rparr>),
    (''AAPL.O'', \<lparr>name = ''Apple'', data = None\<rparr>)] = [] \<and>
   valid_date \<lparr>year = 2026, month = 11, day = 4\<rparr> \<and>
   start_date_of False [(''MSFT.O'', \<lparr>name = ''Microsoft'', data = Some ([] :: int series)\<rparr>),
    (''AAPL.O'', \<lparr>name = ''Apple'', data = None\<rparr>)] \<lparr>year = 2026, month = 11, day = 4\<rparr> =
     Inr ''2021-11-05''"
proof -
  define doc :: "int document" where "doc =
     [(''MSFT.O'', \<lparr>name = ''Microsoft'', data = Some ([] :: int series)\<rparr>),
    (''AAPL.O'', \<lparr>name = ''Apple'', data = None\<rparr>)]"
  have h1: "doc \<noteq> []" by (simp add: doc_def)
  have h2: "observed_dates doc = []" unfolding doc_def by code_simp
  have v: "valid_date \<lparr>year = 2026, month = 11, day = 4\<rparr>" by code_simp
  have m: "minus_days \<lparr>year = 2026, month = 11, day = 4\<rparr> 1825 = Inr \<lparr>year = 2021, month = 11, day = 5\<rparr>"
    by code_simp
  have f: "strftime \<lparr>year = 2021, month = 11, day = 5\<rparr> = ''2021-11-05''" by code_simp
  from start_date_no_entries [OF h1 h2, of "\<lparr>year = 2026, month = 11, day = 4\<rparr>"]
  have "start_date_of False doc \<lparr>year = 2026, month = 11, day = 4\<rparr> = Inr ''2021-11-05''"
    by (simp add: m f)
  with h1 h2 v show ?thesis unfolding doc_def by blast
qed

section \<open>Facts about process\_market and run\<close>

lemma print_simps:
  "console (print e s) = console s @ [e]"
  "local_files (print e s) = local_files s"
  "published (print e s) = published s"
  by (simp_all add: print_def)

lemma load_print:
  "fst (load_existing_data env market (print e s)) = fst (load_existing_data env market s)"
  "local_files (snd (load_existing_data env market (print e s))) =
     local_files (snd (load_existing_data env market s))"
  by (auto simp: load_existing_data_def print_simps split: option.splits sum.splits)

lemma load_published:
  "published (snd (load_existing_data env market s)) = published s"
  by (simp add: load_existing_data_def print_simps split: option.splits sum.splits)

lemma load_local_present:
  "local_files s market = Some doc \<Longrightarrow> load_existing_data env market s = (doc, s)"
  by (simp add: load_existing_data_def)

lemma load_console:
  "\<exists>evs. console (snd (load_existing_data env market s)) = console s @ evs \<and>
         filter is_processing evs = []"
  by (simp add: load_existing_data_def print_simps is_processing_def
      split: option.splits sum.splits)

lemma upload_local:
  "local_files (upload_to_github env market s) = local_files s"
  by (simp add: upload_to_github_def print_simps split: option.splits sum.splits)

lemma upload_console:
  "\<exists>evs. console (upload_to_github env market s) = console s @ evs \<and>
         filter is_processing evs = []"
  by (simp add: upload_to_github_def print_simps is_processing_def
      split: option.splits sum.splits)

lemma save_simps:
  "local_files (save_to_json market d s) = (local_files s)(market \<mapsto> convert_to_ric_format d)"
  "console (save_to_json market d s) = console s @ [Saved market]"
  "published (save_to_json market d s) = published s"
  by (simp_all add: save_to_json_def print_simps)

lemma merge_loop_empty:
  "(merge_loop existing_data new_data acc = []) = (new_data = [] \<and> acc = [])"
  by (induction new_data arbitrary: acc) (simp_all add: setitem_not_empty)

lemma process_market_console:
  "\<exists>evs. console (snd (process_market env market is_first_run s)) =
           console s @ Processing market # evs \<and> filter is_processing evs = []"
proof -
  obtain existing_data s1 where l: "load_existing_data env market (print (Processing market) s) = (existing_data, s1)"
    by (cases "load_existing_data env market (print (Processing market) s)")
  obtain evs1 where e1: "console s1 = console s @ Processing market # evs1" "filter is_processing evs1 = []"
    using load_console [of env market "print (Processing market) s"] by (auto simp: l print_simps)
  obtain evs2 where e2: "\<And>s'. console (upload_to_github env market s') = console s' @ evs2 s'" "\<And>s'. filter is_processing (evs2 s') = []"
    using upload_console [of env market] by metis
  show ?thesis
    unfolding process_market_def l
    by (simp add: Let_def print_simps save_simps e1 e2 is_processing_def split: sum.splits)
qed


lemma run_market_console:
  "\<exists>evs. console (run_market env is_first_run s market) = console s @ evs \<and>
         filter is_processing evs = [Processing market]"
proof -
  obtain evs where evs: "console (snd (process_market env market is_first_run s)) =
           console s @ Processing market # evs" "filter is_processing evs = []"
    using process_market_console by blast
  show ?thesis
  proof (cases "process_market env market is_first_run s")
    case (Pair r s')
    with evs have "console s' = console s @ Processing market # evs" by simp
    with evs(2) Pair show ?thesis
      by (cases r) (simp_all add: run_market_def print_simps is_processing_def)
  qed
qed

lemma foldl_run_market_console:
  "\<exists>evs. console (foldl (run_market env is_first_run) s markets) = console s @ evs \<and>
         filter is_processing evs = map Processing markets"
proof (induction markets arbitrary: s)
  case Nil
  then show ?case by simp
next
  case (Cons m ms)
  obtain evs1 where 1: "console (run_market env is_first_run s m) = console s @ evs1"
    "filter is_processing evs1 = [Processing m]"
    using run_market_console by blast
  obtain evs2 where 2: "console (foldl (run_market env is_first_run) (run_market env is_first_run s m) ms) =
      console (run_market env is_first_run s m) @ evs2" "filter is_processing evs2 = map Processing ms"
    using Cons.IH by blast
  have "console (foldl (run_market env is_first_run) s (m # ms)) = console s @ (evs1 @ evs2)"
    by (simp add: 1 2)
  moreover have "filter is_processing (evs1 @ evs2) = map Processing (m # ms)"
    by (simp add: 1 2)
  ultimately show ?case by blast
qed

lemma process_market_effect:
  assumes "new_data_of env market is_first_run s = Inr new_data"
  shows "fst (process_market env market is_first_run s) = None"
    and "local_files (snd (process_market env market is_first_run s)) =
          (if new_data = [] then local_files (snd (load_existing_data env market s))
           else (local_files (snd (load_existing_data env market s)))
                  (market \<mapsto> convert_to_ric_format
                     (merge_loop (fst (load_existing_data env market s)) new_data [])))"
    and "new_data = [] \<Longrightarrow> published (snd (process_market env market is_first_run s)) = published s"
    and "new_data = [] \<Longrightarrow> \<exists>start_date.
           console (snd (process_market env market is_first_run s)) =
           console (snd (load_existing_data env market (print (Processing market) s))) @
             [ExistingCount (length (fst (load_existing_data env market s))),
              StartFrom start_date, NoData market]"
proof -
  obtain existing_data s1 where l: "load_existing_data env market (print (Processing market) s) = (existing_data, s1)"
    by (cases "load_existing_data env market (print (Processing market) s)")
  have ex: "fst (load_existing_data env market s) = existing_data"
    using load_print(1) [of env market "Processing market" s] by (simp add: l)
  have lf: "local_files (snd (load_existing_data env market s)) = local_files s1"
    using load_print(2) [of env market "Processing market" s] by (simp add: l)
  have pb: "published s1 = published s"
    using load_published [of env market "print (Processing market) s"] by (simp add: l print_simps)
  from assms obtain start_date where sd: "start_date_of is_first_run existing_data (now env) = Inr start_date"
    and dl: "download_new_data env market start_date = Inr new_data"
    by (auto simp: new_data_of_def ex split: sum.splits)
  show "fst (process_market env market is_first_run s) = None"
    unfolding process_market_def l by (simp add: Let_def sd dl)
  show "local_files (snd (process_market env market is_first_run s)) =
          (if new_data = [] then local_files (snd (load_existing_data env market s))
           else (local_files (snd (load_existing_data env market s)))
                  (market \<mapsto> convert_to_ric_format
                     (merge_loop (fst (load_existing_data env market s)) new_data [])))"
    unfolding process_market_def l ex lf
    by (simp add: Let_def sd dl merge_loop_empty print_simps upload_local save_simps)
  show "published (snd (process_market env market is_first_run s)) = published s" if "new_data = []"
    unfolding process_market_def l using that
    by (simp add: Let_def sd dl print_simps pb)
  show "\<exists>start_date.
           console (snd (process_market env market is_first_run s)) =
           console (snd (load_existing_data env market (print (Processing market) s))) @
             [ExistingCount (length (fst (load_existing_data env market s))),
              StartFrom start_date, NoData market]" if "new_data = []"
    unfolding process_market_def ex using that
    by (simp add: l Let_def sd dl print_simps)
qed

lemma setitem_append: "k \<notin> set (keys d) \<Longrightarrow> setitem k v d = d @ [(k, v)]"
  by (induction d) (auto simp: keys_def)

lemma merge_loop_map:
  "distinct (keys new_data) \<Longrightarrow> set (keys new_data) \<inter> set (keys acc) = {} \<Longrightarrow>
   merge_loop existing_data new_data acc =
     acc @ map (\<lambda>p. (fst p, merge_data (old_prices_of existing_data (ric_of (fst p))) (snd p) (fst p)))
             new_data"
proof (induction new_data arbitrary: acc)
  case Nil
  then show ?case by simp
next
  case (Cons p ps)
  let ?e = "(fst p, merge_data (old_prices_of existing_data (ric_of (fst p))) (snd p) (fst p))"
  from Cons.prems have fresh: "fst p \<notin> set (keys acc)" and d: "distinct (keys ps)"
    and dis: "set (keys ps) \<inter> set (keys (acc @ [?e])) = {}"
    by (auto simp: keys_def)
  have "merge_loop existing_data (p # ps) acc = merge_loop existing_data ps (acc @ [?e])"
    using setitem_append [OF fresh] by simp
  also have "\<dots> = (acc @ [?e]) @ map (\<lambda>p. (fst p, merge_data (old_prices_of existing_data (ric_of (fst p))) (snd p) (fst p))) ps"
    by (rule Cons.IH [OF d dis])
  finally show ?case by simp
qed

lemma convert_loop_map:
  "distinct (map ric_of (keys md)) \<Longrightarrow> set (map ric_of (keys md)) \<inter> set (keys acc) = {} \<Longrightarrow>
   convert_loop md acc =
     acc @ map (\<lambda>p. (ric_of (fst p),
                      \<lparr>name = name_or (find_name market_data (fst p)) (fst p), data = Some (snd p)\<rparr>)) md"
proof (induction md arbitrary: acc)
  case Nil
  then show ?case by simp
next
  case (Cons p ps)
  let ?e = "(ric_of (fst p), \<lparr>name = name_or (find_name market_data (fst p)) (fst p), data = Some (snd p)\<rparr>)"
  from Cons.prems have fresh: "ric_of (fst p) \<notin> set (keys acc)" and d: "distinct (map ric_of (keys ps))"
    and dis: "set (map ric_of (keys ps)) \<inter> set (keys (acc @ [?e])) = {}"
    by (auto simp: keys_def)
  have "convert_loop (p # ps) acc = convert_loop ps (acc @ [?e])"
    using setitem_append [OF fresh] by simp
  also have "\<dots> = (acc @ [?e]) @ map (\<lambda>p. (ric_of (fst p),
                      \<lparr>name = name_or (find_name market_data (fst p)) (fst p), data = Some (snd p)\<rparr>)) ps"
    by (rule Cons.IH [OF d dis])
  finally show ?case by simp
qed

lemma distinct_map_ric_of:
  "distinct (map ric_of ks) \<Longrightarrow> distinct ks"
  by (simp add: distinct_map)

lemma persisted_document:
  assumes "distinct (map ric_of (keys new_data))"
  shows "convert_to_ric_format (merge_loop existing_data new_data []) =
         map (persisted_entry existing_data) new_data"
proof -
  have d: "distinct (keys new_data)"
    using assms by (rule distinct_map_ric_of)
  have m: "merge_loop existing_data new_data [] =
     map (\<lambda>p. (fst p, merge_data (old_prices_of existing_data (ric_of (fst p))) (snd p) (fst p))) new_data"
    using merge_loop_map [OF d, of "[]" existing_data] by (simp add: keys_def)
  have k: "keys (map (\<lambda>p. (fst p, merge_data (old_prices_of existing_data (ric_of (fst p))) (snd p) (fst p))) new_data)
       = keys new_data"
    by (simp add: keys_def comp_def)
  show ?thesis
    unfolding convert_to_ric_format_def m
    using convert_loop_map [of "map (\<lambda>p. (fst p, merge_data (old_prices_of existing_data (ric_of (fst p))) (snd p) (fst p))) new_data" "[]"]
      assms
    by (simp add: k comp_def) (simp add: keys_def persisted_entry_def)
qed

lemma ric_of_inj:
  assumes "t \<in> set (keys ticker_to_ric)" and "t' \<in> set (keys ticker_to_ric)"
    and "ric_of t = ric_of t'"
  shows "t = t'"
proof -
  have inj: "inj_on snd (set ticker_to_ric)"
  proof -
    have "distinct (map snd ticker_to_ric)" by code_simp
    then show ?thesis by (simp add: distinct_map)
  qed
  have look: "\<exists>r. map_of ticker_to_ric x = Some r" if "x \<in> set (keys ticker_to_ric)" for x
    using that by (cases "map_of ticker_to_ric x") (auto simp: keys_def map_of_eq_None_iff)
  from look [OF assms(1)] obtain r where r: "map_of ticker_to_ric t = Some r" by blast
  from look [OF assms(2)] obtain r' where r': "map_of ticker_to_ric t' = Some r'" by blast
  from assms(3) have "r = r'" by (simp add: ric_of_def r r')
  moreover have "(t, r) \<in> set ticker_to_ric" "(t', r') \<in> set ticker_to_ric"
    using r r' by (auto dest: map_of_SomeD)
  ultimately have "snd (t, r) = snd (t', r')" "(t, r) \<in> set ticker_to_ric"
    "(t', r') \<in> set ticker_to_ric" by simp_all
  with inj have "(t, r) = (t', r')" by (rule inj_onD)
  then show ?thesis by simp
qed

lemma market_tickers_known:
  assumes "map_of market_data market = Some tickers_dict"
  shows "set (keys tickers_dict) \<subseteq> set (keys ticker_to_ric)"
proof -
  have all: "list_all (\<lambda>m. list_all (\<lambda>p. fst p \<in> set (keys ticker_to_ric)) (snd m)) market_data"
    by code_simp
  from assms have "(market, tickers_dict) \<in> set market_data"
    by (rule map_of_SomeD)
  with all have "list_all (\<lambda>p. fst p \<in> set (keys ticker_to_ric)) tickers_dict"
    by (auto simp: list_all_iff)
  then show ?thesis by (auto simp: list_all_iff keys_def)
qed

lemma download_loop_keys:
  "set (keys (download_loop fetch tickers_dict acc)) \<subseteq> set (keys acc) \<union> set (keys tickers_dict)"
proof (induction tickers_dict arbitrary: acc)
  case Nil
  then show ?case by simp
next
  case (Cons p ps)
  have "set (keys (setitem (fst p) d acc)) \<subseteq> set (keys acc) \<union> set (keys (p # ps))" for d
    by (auto simp: keys_setitem) (simp add: keys_def)
  moreover have "set (keys (p # ps)) = insert (fst p) (set (keys ps))"
    by (simp add: keys_def)
  ultimately show ?case
    using Cons.IH [of acc] Cons.IH [of "setitem (fst p) d acc" for d]
    by (auto split: sum.splits simp: keys_setitem)
qed

lemma download_loop_distinct:
  "distinct (keys acc) \<Longrightarrow> distinct (keys (download_loop fetch tickers_dict acc))"
  by (induction tickers_dict arbitrary: acc) (auto split: sum.splits simp: distinct_setitem)

lemma download_new_data_keys:
  assumes "download_new_data env market start_date = Inr new_data"
  shows "distinct (map ric_of (keys new_data))"
proof -
  have "\<exists>fetch tickers_dict m. new_data = download_loop fetch tickers_dict [] \<and>
          map_of market_data m = Some tickers_dict"
    using assms
    by (auto simp: download_new_data_def download_fred_rates_def download_yfinance_data_def
        split: if_splits option.splits)
  then obtain fetch tickers_dict m where nd: "new_data = download_loop fetch tickers_dict []"
    and td: "map_of market_data m = Some tickers_dict" by blast
  have sub: "set (keys new_data) \<subseteq> set (keys ticker_to_ric)"
    using download_loop_keys [of fetch tickers_dict "[]"] market_tickers_known [OF td]
    by (auto simp: nd keys_def)
  have d: "distinct (keys new_data)"
    unfolding nd by (rule download_loop_distinct) (simp add: keys_def)
  have "inj_on ric_of (set (keys new_data))"
    using sub ric_of_inj by (auto intro!: inj_onI)
  with d show ?thesis by (simp add: distinct_map)
qed

lemma old_prices_distinct:
  assumes "wf_document doc"
  shows "distinct (keys (old_prices_of doc ric))"
proof (cases "map_of doc ric")
  case None
  then show ?thesis by (simp add: old_prices_of_def keys_def)
next
  case (Some i)
  then have "(ric, i) \<in> set doc" by (rule map_of_SomeD)
  with assms have "case data i of None \<Rightarrow> True | Some d \<Rightarrow> distinct (keys d)"
    by (auto simp: wf_document_def list_all_iff)
  with Some show ?thesis
    by (simp add: old_prices_of_def keys_def split: option.splits)
qed

lemma map_of_old_prices:
  "map_of (old_prices_of doc ric) d =
     (case map_of doc ric of
        None \<Rightarrow> None
      | Some item_data \<Rightarrow> (case data item_data of None \<Rightarrow> None | Some series \<Rightarrow> map_of series d))"
  by (simp add: old_prices_of_def split: option.splits)

section \<open>The run over all markets\<close>

text \<open>
  C9. Whatever the collaborators do and whatever state the run starts in, so also when
  \<open>process_market\<close> raises an error for some markets, \<open>run\<close> returns, and the console
  shows that the processing of each of the six configured markets was started, once and
  in the configured order: an error in one market is caught (and logged by \<open>run\<close>), and
  the next market is processed.
\<close>

theorem run_attempts_every_market:
  "\<exists>evs. console (run env is_first_run s) = console s @ evs \<and>
         filter is_processing evs =
           [Processing ''Equity_Index'', Processing ''US_Stocks'', Processing ''TW_Stocks'',
            Processing ''US_Rates'', Processing ''FX'', Processing ''Commodity'']"
proof -
  obtain evs where evs: "console (foldl (run_market env is_first_run) (print Banner s) (keys market_data)) =
      console (print Banner s) @ evs" "filter is_processing evs = map Processing (keys market_data)"
    using foldl_run_market_console by blast
  have k: "keys market_data = [''Equity_Index'', ''US_Stocks'', ''TW_Stocks'', ''US_Rates'', ''FX'', ''Commodity'']"
    by (simp add: market_data_def keys_def)
  have "console (run env is_first_run s) = console s @ (Banner # evs @ [Finished])"
    by (simp add: run_def print_simps evs(1))
  moreover have "filter is_processing (Banner # evs @ [Finished]) =
     [Processing ''Equity_Index'', Processing ''US_Stocks'', Processing ''TW_Stocks'',
            Processing ''US_Rates'', Processing ''FX'', Processing ''Commodity'']"
    by (simp add: evs(2) k is_processing_def)
  ultimately show ?thesis by blast
qed

theorem run_attempts_every_market_witness:
  "console
     (run offline_env False
        (empty_state\<lparr>local_files := [''Equity_Index'' \<mapsto>
           [(''.SPX'', \<lparr>name = ''S&P 500'', data = Some [(''yesterday'', 1)]\<rparr>)]]\<rparr>)) =
     [Banner,
      Processing ''Equity_Index'', ExistingCount 1, Failed ''Equity_Index'' ValueError,
      Processing ''US_Stocks'', ExistingCount 0, StartFrom ''2020-01-01'', NoData ''US_Stocks'',
      Processing ''TW_Stocks'', ExistingCount 0, StartFrom ''2020-01-01'', NoData ''TW_Stocks'',
      Processing ''US_Rates'', ExistingCount 0, StartFrom ''2020-01-01'', NoData ''US_Rates'',
      Processing ''FX'', ExistingCount 0, StartFrom ''2020-01-01'', NoData ''FX'',
      Processing ''Commodity'', ExistingCount 0, StartFrom ''2020-01-01'', NoData ''Commodity'',
      Finished] \<and>
   filter is_processing
     (console
        (run offline_env False
           (empty_state\<lparr>local_files := [''Equity_Index'' \<mapsto>
              [(''.SPX'', \<lparr>name = ''S&P 500'', data = Some [(''yesterday'', 1)]\<rparr>)]]\<rparr>))) =
     [Processing ''Equity_Index'', Processing ''US_Stocks'', Processing ''TW_Stocks'',
      Processing ''US_Rates'', Processing ''FX'', Processing ''Commodity'']"
proof -
  define s where "s = empty_state\<lparr>local_files := [''Equity_Index'' \<mapsto>
           [(''.SPX'', \<lparr>name = ''S&P 500'', data = Some [(''yesterday'', 1)]\<rparr>)]]\<rparr>"
  have c: "console (run offline_env False s) =
     [Banner,
      Processing ''Equity_Index'', ExistingCount 1, Failed ''Equity_Index'' ValueError,
      Processing ''US_Stocks'', ExistingCount 0, StartFrom ''2020-01-01'', NoData ''US_Stocks'',
      Processing ''TW_Stocks'', ExistingCount 0, StartFrom ''2020-01-01'', NoData ''TW_Stocks'',
      Processing ''US_Rates'', ExistingCount 0, StartFrom ''2020-01-01'', NoData ''US_Rates'',
      Processing ''FX'', ExistingCount 0, StartFrom ''2020-01-01'', NoData ''FX'',
      Processing ''Commodity'', ExistingCount 0, StartFrom ''2020-01-01'', NoData ''Commodity'',
      Finished]"
    unfolding s_def by code_simp
  have e: "console s = []" by (simp add: s_def empty_state_def)
  from run_attempts_every_market [of offline_env False s]
  have "filter is_processing (console (run offline_env False s)) =
     [Processing ''Equity_Index'', Processing ''US_Stocks'', Processing ''TW_Stocks'',
      Processing ''US_Rates'', Processing ''FX'', Processing ''Commodity'']"
    by (auto simp: e)
  with c show ?thesis unfolding s_def by blast
qed

section \<open>What process\_market persists\<close>

text \<open>
  C8, as the code has it. When the download of a run returns the new data \<open>new_data\<close>,
  the merged set of instruments is empty exactly when \<open>new_data\<close> is. If it is empty,
  \<open>process_market\<close> returns normally, \<open>save_to_json\<close> and \<open>upload_to_github\<close> are not
  called and the "no data" line is printed: the local files are those that
  \<open>load_existing_data\<close> left, which are the files before the run when the market had a
  local file (without one, \<open>load_existing_data\<close> may have stored the document read from the
  remote store). If it is not empty, the merged document is written to the market's file.
\<close>

theorem process_market_no_new_data:
  assumes "new_data_of env market is_first_run s = Inr new_data"
  shows "((merge_loop (fst (load_existing_data env market s)) new_data [] = []) = (new_data = [])) \<and>
         (new_data = [] \<longrightarrow>
            fst (process_market env market is_first_run s) = None \<and>
            local_files (snd (process_market env market is_first_run s)) =
              local_files (snd (load_existing_data env market s)) \<and>
            published (snd (process_market env market is_first_run s)) = published s \<and>
            (\<exists>start_date.
               console (snd (process_market env market is_first_run s)) =
               console (snd (load_existing_data env market (print (Processing market) s))) @
                 [ExistingCount (length (fst (load_existing_data env market s))),
                  StartFrom start_date, NoData market]) \<and>
            (local_files s market \<noteq> None \<longrightarrow>
               local_files (snd (process_market env market is_first_run s)) = local_files s)) \<and>
         (new_data \<noteq> [] \<longrightarrow>
            local_files (snd (process_market env market is_first_run s)) market =
              Some (convert_to_ric_format
                      (merge_loop (fst (load_existing_data env market s)) new_data [])))"
proof -
  note eff = process_market_effect [OF assms]
  have keep: "local_files (snd (load_existing_data env market s)) = local_files s"
    if "local_files s market \<noteq> None"
    using that load_local_present [of s market _ env] by auto
  have 1: "(merge_loop (fst (load_existing_data env market s)) new_data [] = []) = (new_data = [])"
    by (simp add: merge_loop_empty)
  have 2: "new_data = [] \<longrightarrow>
            fst (process_market env market is_first_run s) = None \<and>
            local_files (snd (process_market env market is_first_run s)) =
              local_files (snd (load_existing_data env market s)) \<and>
            published (snd (process_market env market is_first_run s)) = published s \<and>
            (\<exists>start_date.
               console (snd (process_market env market is_first_run s)) =
               console (snd (load_existing_data env market (print (Processing market) s))) @
                 [ExistingCount (length (fst (load_existing_data env market s))),
                  StartFrom start_date, NoData market]) \<and>
            (local_files s market \<noteq> None \<longrightarrow>
               local_files (snd (process_market env market is_first_run s)) = local_files s)"
    using eff(1) eff(2) eff(3) eff(4) keep by simp
  have 3: "new_data \<noteq> [] \<longrightarrow>
            local_files (snd (process_market env market is_first_run s)) market =
              Some (convert_to_ric_format
                      (merge_loop (fst (load_existing_data env market s)) new_data []))"
    using eff(2) by simp
  from 1 2 3 show ?thesis by blast
qed

theorem process_market_no_new_data_witness:
  "new_data_of offline_env ''Commodity'' False
     (empty_state\<lparr>local_files := [''Commodity'' \<mapsto>
        [(''CLc1'', \<lparr>name = ''WTI Oil'', data = Some [(''2023-01-01'', 70)]\<rparr>),
         (''GCc1'', \<lparr>name = ''Gold'', data = Some [(''2023-01-01'', 1800)]\<rparr>)]]\<rparr>) = Inr [] \<and>
   local_files
     (snd (process_market offline_env ''Commodity'' False
        (empty_state\<lparr>local_files := [''Commodity'' \<mapsto>
           [(''CLc1'', \<lparr>name = ''WTI Oil'', data = Some [(''2023-01-01'', 70)]\<rparr>),
            (''GCc1'', \<lparr>name = ''Gold'', data = Some [(''2023-01-01'', 1800)]\<rparr>)]]\<rparr>))) =
   local_files
     (empty_state\<lparr>local_files := [''Commodity'' \<mapsto>
        [(''CLc1'', \<lparr>name = ''WTI Oil'', data = Some [(''2023-01-01'', 70)]\<rparr>),
         (''GCc1'', \<lparr>name = ''Gold'', data = Some [(''2023-01-01'', 1800)]\<rparr>)]]\<rparr>) \<and>
   console
     (snd (process_market offline_env ''Commodity'' False
        (empty_state\<lparr>local_files := [''Commodity'' \<mapsto>
           [(''CLc1'', \<lparr>name = ''WTI Oil'', data = Some [(''2023-01-01'', 70)]\<rparr>),
            (''GCc1'', \<lparr>name = ''Gold'', data = Some [(''2023-01-01'', 1800)]\<rparr>)]]\<rparr>))) =
     [Processing ''Commodity'', ExistingCount 2, StartFrom ''2022-12-31'', NoData ''Commodity'']"
proof -
  define s where "s = empty_state\<lparr>local_files := [''Commodity'' \<mapsto>
        [(''CLc1'', \<lparr>name = ''WTI Oil'', data = Some [(''2023-01-01'', 70)]\<rparr>),
         (''GCc1'', \<lparr>name = ''Gold'', data = Some [(''2023-01-01'', 1800)]\<rparr>)]]\<rparr>"
  have h: "new_data_of offline_env ''Commodity'' False s = Inr []"
    unfolding s_def by code_simp
  have f: "local_files s ''Commodity'' \<noteq> None"
    by (simp add: s_def)
  have c: "console (snd (process_market offline_env ''Commodity'' False s)) =
     [Processing ''Commodity'', ExistingCount 2, StartFrom ''2022-12-31'', NoData ''Commodity'']"
    unfolding s_def by code_simp
  from process_market_no_new_data [OF h] f
  have "local_files (snd (process_market offline_env ''Commodity'' False s)) = local_files s"
    by blast
  with h c show ?thesis unfolding s_def by blast
qed

text \<open>
  C8, as the claim states it, fails when the market has no local file, the credentials
  are set and the remote store returns a document: the download returns nothing, and yet
  the market's local file is written, by \<open>load_existing_data\<close>.
\<close>

theorem process_market_caches_remote_counterexample:
  "new_data_of
     (offline_env\<lparr>github_token := Some ''token'', github_get := (\<lambda>market.
        Inr (Some [(''CLc1'', \<lparr>name = ''WTI Oil'', data = Some [(''2023-01-01'', 70)]\<rparr>)]))\<rparr>)
     ''Commodity'' False empty_state = Inr [] \<and>
   local_files empty_state ''Commodity'' = None \<and>
   local_files
     (snd (process_market
        (offline_env\<lparr>github_token := Some ''token'', github_get := (\<lambda>market.
           Inr (Some [(''CLc1'', \<lparr>name = ''WTI Oil'', data = Some [(''2023-01-01'', 70)]\<rparr>)]))\<rparr>)
        ''Commodity'' False empty_state))
     ''Commodity'' =
     Some [(''CLc1'', \<lparr>name = ''WTI Oil'', data = Some [(''2023-01-01'', 70)]\<rparr>)]"
  by code_simp

text \<open>
  C1, as the code has it. When a market has a persisted document \<open>prior\<close> and the run
  downloads the new data \<open>new_data\<close>, not empty, the run writes a document \<open>w\<close> that
  holds one entry for each instrument of \<open>new_data\<close>, under its RIC, and no other entry.
  The time series of the entry of an instrument has every date once; at a date of the
  new series it has the new value, and at any other date it has what the time series
  stored under that RIC in \<open>prior\<close> has there. So every date that \<open>prior\<close> holds for a
  downloaded instrument is kept, with its value unless the download has that date too.
\<close>

theorem process_market_persists_downloaded:
  assumes "local_files s market = Some prior"
    and "new_data_of env market is_first_run s = Inr new_data"
    and "new_data \<noteq> []"
    and "wf_document prior" and "wf_new_data new_data"
  shows "\<exists>w. local_files (snd (process_market env market is_first_run s)) market = Some w \<and>
             keys w = map ric_of (keys new_data) \<and>
             distinct (keys w) \<and>
             (\<forall>p \<in> set new_data. \<exists>n merged.
                map_of w (ric_of (fst p)) = Some \<lparr>name = n, data = Some merged\<rparr> \<and>
                distinct (keys merged) \<and>
                (\<forall>d. map_of merged d =
                   (case map_of (snd p) d of
                      Some v \<Rightarrow> Some v
                    | None \<Rightarrow>
                        (case map_of prior (ric_of (fst p)) of
                           None \<Rightarrow> None
                         | Some item_data \<Rightarrow>
                             (case data item_data of
                                None \<Rightarrow> None
                              | Some series \<Rightarrow> map_of series d)))))"
proof -
  define w where "w = map (persisted_entry prior) new_data"
  have l: "load_existing_data env market s = (prior, s)"
    using assms(1) by (rule load_local_present)
  from assms(2) obtain start_date where "download_new_data env market start_date = Inr new_data"
    by (auto simp: new_data_of_def split: sum.splits)
  then have d: "distinct (map ric_of (keys new_data))"
    by (rule download_new_data_keys)
  have "local_files (snd (process_market env market is_first_run s)) market =
          Some (convert_to_ric_format (merge_loop prior new_data []))"
    using process_market_effect(2) [OF assms(2)] assms(3) by (simp add: l)
  then have written: "local_files (snd (process_market env market is_first_run s)) market = Some w"
    by (simp add: persisted_document [OF d] w_def)
  have k: "keys w = map ric_of (keys new_data)"
    by (simp add: w_def keys_def persisted_entry_def comp_def)
  have dw: "distinct (keys w)"
    using d by (simp add: k)
  have entry: "\<exists>n merged.
                map_of w (ric_of (fst p)) = Some \<lparr>name = n, data = Some merged\<rparr> \<and>
                distinct (keys merged) \<and>
                (\<forall>d. map_of merged d =
                   (case map_of (snd p) d of
                      Some v \<Rightarrow> Some v
                    | None \<Rightarrow>
                        (case map_of prior (ric_of (fst p)) of
                           None \<Rightarrow> None
                         | Some item_data \<Rightarrow>
                             (case data item_data of
                                None \<Rightarrow> None
                              | Some series \<Rightarrow> map_of series d))))"
    if p: "p \<in> set new_data" for p
  proof -
    define merged where
      "merged = merge_data (old_prices_of prior (ric_of (fst p))) (snd p) (fst p)"
    from p assms(5) have df: "distinct (keys (snd p))"
      by (auto simp: wf_new_data_def list_all_iff)
    have dp: "distinct (keys (old_prices_of prior (ric_of (fst p))))"
      using assms(4) by (rule old_prices_distinct)
    from p have "persisted_entry prior p \<in> set w"
      by (simp add: w_def)
    then have "(ric_of (fst p),
                \<lparr>name = name_or (find_name market_data (fst p)) (fst p), data = Some merged\<rparr>) \<in> set w"
      by (simp add: persisted_entry_def merged_def)
    with dw have 1: "map_of w (ric_of (fst p)) =
        Some \<lparr>name = name_or (find_name market_data (fst p)) (fst p), data = Some merged\<rparr>"
      by (simp add: keys_def)
    have 2: "distinct (keys merged)"
      unfolding merged_def using dp df by (rule distinct_merge_data)
    have 3: "map_of merged d =
                   (case map_of (snd p) d of
                      Some v \<Rightarrow> Some v
                    | None \<Rightarrow>
                        (case map_of prior (ric_of (fst p)) of
                           None \<Rightarrow> None
                         | Some item_data \<Rightarrow>
                             (case data item_data of
                                None \<Rightarrow> None
                              | Some series \<Rightarrow> map_of series d)))" for d
      unfolding merged_def
      by (cases "map_of (snd p) d")
         (simp_all add: map_of_merge_data [OF dp df] map_add_def map_of_old_prices)
    from 1 2 3 show ?thesis by blast
  qed
  from written k dw entry show ?thesis by blast
qed

theorem process_market_persists_downloaded_witness:
  "local_files
     (empty_state\<lparr>local_files := [''US_Stocks'' \<mapsto>
        [(''MSFT.O'', \<lparr>name = ''Microsoft'',
                       data = Some [(''2022-12-30'', 99), (''2023-01-01'', 100)]\<rparr>)]]\<rparr>)
     ''US_Stocks'' =
     Some [(''MSFT.O'', \<lparr>name = ''Microsoft'',
                          data = Some [(''2022-12-30'', 99), (''2023-01-01'', 100)]\<rparr>)] \<and>
   new_data_of
     (offline_env\<lparr>yf_download := (\<lambda>ticker start_date.
        if ticker = ''MSFT'' then Inr [(''2023-01-01'', 101), (''2023-01-02'', 102)]
        else Inl RequestException)\<rparr>)
     ''US_Stocks'' False
     (empty_state\<lparr>local_files := [''US_Stocks'' \<mapsto>
        [(''MSFT.O'', \<lparr>name = ''Microsoft'',
                       data = Some [(''2022-12-30'', 99), (''2023-01-01'', 100)]\<rparr>)]]\<rparr>) =
     Inr [(''MSFT'', [(''2023-01-01'', 101), (''2023-01-02'', 102)])] \<and>
   wf_document [(''MSFT.O'', \<lparr>name = ''Microsoft'',
                                data = Some [(''2022-12-30'', 99::int), (''2023-01-01'', 100)]\<rparr>)] \<and>
   wf_new_data [(''MSFT'', [(''2023-01-01'', 101::int), (''2023-01-02'', 102)])] \<and>
   local_files
     (snd (process_market
        (offline_env\<lparr>yf_download := (\<lambda>ticker start_date.
           if ticker = ''MSFT'' then Inr [(''2023-01-01'', 101), (''2023-01-02'', 102)]
           else Inl RequestException)\<rparr>)
        ''US_Stocks'' False
        (empty_state\<lparr>local_files := [''US_Stocks'' \<mapsto>
           [(''MSFT.O'', \<lparr>name = ''Microsoft'',
                          data = Some [(''2022-12-30'', 99), (''2023-01-01'', 100)]\<rparr>)]]\<rparr>)))
     ''US_Stocks'' =
     Some [(''MSFT.O'',
            \<lparr>name = ''Microsoft'',
               data = Some [(''2022-12-30'', 99), (''2023-01-01'', 101), (''2023-01-02'', 102)]\<rparr>)] \<and>
   (\<exists>w n merged.
      local_files
        (snd (process_market
           (offline_env\<lparr>yf_download := (\<lambda>ticker start_date.
              if ticker = ''MSFT'' then Inr [(''2023-01-01'', 101), (''2023-01-02'', 102)]
              else Inl RequestException)\<rparr>)
           ''US_Stocks'' False
           (empty_state\<lparr>local_files := [''US_Stocks'' \<mapsto>
              [(''MSFT.O'', \<lparr>name = ''Microsoft'',
                             data = Some [(''2022-12-30'', 99), (''2023-01-01'', 100)]\<rparr>)]]\<rparr>)))
        ''US_Stocks'' = Some w \<and>
      map_of w ''MSFT.O'' = Some \<lparr>name = n, data = Some merged\<rparr> \<and>
      map_of merged ''2022-12-30'' = Some 99 \<and>
      map_of merged ''2023-01-01'' = Some 101 \<and>
      map_of merged ''2023-01-02'' = Some 102)"
proof -
  define prior :: "int document" where
    "prior = [(''MSFT.O'', \<lparr>name = ''Microsoft'',
                              data = Some [(''2022-12-30'', 99), (''2023-01-01'', 100)]\<rparr>)]"
  define nd :: "(string, int series) dict" where
    "nd = [(''MSFT'', [(''2023-01-01'', 101), (''2023-01-02'', 102)])]"
  define env where "env = offline_env\<lparr>yf_download := (\<lambda>ticker start_date.
        if ticker = ''MSFT'' then Inr [(''2023-01-01'', 101), (''2023-01-02'', 102)]
        else Inl RequestException)\<rparr>"
  define s where "s = empty_state\<lparr>local_files := [''US_Stocks'' \<mapsto> prior]\<rparr>"
  have h1: "local_files s ''US_Stocks'' = Some prior"
    by (simp add: s_def)
  have h2: "new_data_of env ''US_Stocks'' False s = Inr nd"
    unfolding env_def s_def prior_def nd_def by code_simp
  have h3: "nd \<noteq> []" by (simp add: nd_def)
  have h4: "wf_document prior" unfolding prior_def by code_simp
  have h5: "wf_new_data nd" unfolding nd_def by code_simp
  have r: "ric_of ''MSFT'' = ''MSFT.O''" by code_simp
  from process_market_persists_downloaded [OF h1 h2 h3 h4 h5]
  obtain w where w: "local_files (snd (process_market env ''US_Stocks'' False s)) ''US_Stocks'' = Some w"
    and ent: "\<forall>p \<in> set nd. \<exists>n merged.
                map_of w (ric_of (fst p)) = Some \<lparr>name = n, data = Some merged\<rparr> \<and>
                distinct (keys merged) \<and>
                (\<forall>d. map_of merged d =
                   (case map_of (snd p) d of
                      Some v \<Rightarrow> Some v
                    | None \<Rightarrow>
                        (case map_of prior (ric_of (fst p)) of
                           None \<Rightarrow> None
                         | Some item_data \<Rightarrow>
                             (case data item_data of
                                None \<Rightarrow> None
                              | Some series \<Rightarrow> map_of series d))))"
    by blast
  have mem: "(''MSFT'', [(''2023-01-01'', 101::int), (''2023-01-02'', 102)]) \<in> set nd"
    by (simp add: nd_def)
  from bspec [OF ent mem]
  obtain n merged where m: "map_of w (ric_of ''MSFT'') = Some \<lparr>name = n, data = Some merged\<rparr>"
    and v: "\<forall>d. map_of merged d =
                   (case map_of [(''2023-01-01'', 101::int), (''2023-01-02'', 102)] d of
                      Some v \<Rightarrow> Some v
                    | None \<Rightarrow>
                        (case map_of prior (ric_of ''MSFT'') of
                           None \<Rightarrow> None
                         | Some item_data \<Rightarrow>
                             (case data item_data of
                                None \<Rightarrow> None
                              | Some series \<Rightarrow> map_of series d)))"
    unfolding fst_conv snd_conv by blast
  have v1: "map_of merged ''2022-12-30'' = Some 99"
    by (simp add: v r prior_def)
  have v2: "map_of merged ''2023-01-01'' = Some 101"
    by (simp add: v)
  have v3: "map_of merged ''2023-01-02'' = Some 102"
    by (simp add: v)
  have c: "local_files (snd (process_market env ''US_Stocks'' False s)) ''US_Stocks'' =
     Some [(''MSFT.O'',
            \<lparr>name = ''Microsoft'',
               data = Some [(''2022-12-30'', 99), (''2023-01-01'', 101), (''2023-01-02'', 102)]\<rparr>)]"
    unfolding env_def s_def prior_def by code_simp
  from w m [unfolded r] v1 v2 v3 have "\<exists>w n merged.
      local_files (snd (process_market env ''US_Stocks'' False s)) ''US_Stocks'' = Some w \<and>
      map_of w ''MSFT.O'' = Some \<lparr>name = n, data = Some merged\<rparr> \<and>
      map_of merged ''2022-12-30'' = Some 99 \<and>
      map_of merged ''2023-01-01'' = Some 101 \<and>
      map_of merged ''2023-01-02'' = Some 102"
    by blast
  with h1 h2 h4 h5 c show ?thesis
    unfolding env_def s_def prior_def nd_def by blast
qed

text \<open>
  C1, as the claim states it, fails when the download of one instrument of the prior
  document fails: the document written by the run holds the instrument that was
  downloaded, and the other one (here \<open>GCc1\<close>) is gone.
\<close>

theorem process_market_drops_instrument_counterexample:
  "local_files
     (empty_state\<lparr>local_files := [''Commodity'' \<mapsto>
        [(''CLc1'', \<lparr>name = ''WTI Oil'', data = Some [(''2023-01-01'', 70)]\<rparr>),
         (''GCc1'', \<lparr>name = ''Gold'', data = Some [(''2023-01-01'', 1800)]\<rparr>)]]\<rparr>)
     ''Commodity'' =
     Some [(''CLc1'', \<lparr>name = ''WTI Oil'', data = Some [(''2023-01-01'', 70)]\<rparr>),
           (''GCc1'', \<lparr>name = ''Gold'', data = Some [(''2023-01-01'', 1800)]\<rparr>)] \<and>
   local_files
     (snd (process_market
        (offline_env\<lparr>yf_download := (\<lambda>ticker start_date.
           if ticker = ''CL=F'' then Inr [(''2023-01-02'', 71)] else Inl RequestException)\<rparr>)
        ''Commodity'' False
        (empty_state\<lparr>local_files := [''Commodity'' \<mapsto>
           [(''CLc1'', \<lparr>name = ''WTI Oil'', data = Some [(''2023-01-01'', 70)]\<rparr>),
            (''GCc1'', \<lparr>name = ''Gold'', data = Some [(''2023-01-01'', 1800)]\<rparr>)]]\<rparr>)))
     ''Commodity'' =
     Some [(''CLc1'',
            \<lparr>name = ''WTI Oil'', data = Some [(''2023-01-01'', 70), (''2023-01-02'', 71)]\<rparr>)]"
  by code_simp

end
